theory Spec2Isabelle
  imports Main "HOL-Library.Char_ord" "HOL-Library.List_Lexorder" "HOL-Library.Product_Lexorder"
    "HOL-Library.Sublist"
begin

section \<open>Python strings\<close>

text \<open>
  The merge script \<^verbatim>\<open>data_script_merge_batch_plus_monthly.py\<close> works on Python
  strings. A string is modelled as a list of characters; the character classes below are the
  ASCII part of what \<^verbatim>\<open>str.isspace\<close>, \<^verbatim>\<open>str.isdigit\<close> and the
  \<^verbatim>\<open>re\<close> classes accept. Codes above 127 get no special meaning: the model is
  about ASCII text.
\<close>

definition is_space :: "char \<Rightarrow> bool" where
  "is_space c = (c \<in> set [CHR 0x09, CHR 0x0A, CHR 0x0B, CHR 0x0C, CHR 0x0D,
                             CHR 0x1C, CHR 0x1D, CHR 0x1E, CHR 0x1F, CHR 0x20])"

definition is_digit :: "char \<Rightarrow> bool" where
  "is_digit c = (c \<in> set ''0123456789'')"

definition ascii_upper :: string where
  "ascii_upper = ''ABCDEFGHIJKLMNOPQRSTUVWXYZ''"

definition ascii_lower :: string where
  "ascii_lower = ''abcdefghijklmnopqrstuvwxyz''"

definition is_word :: "char \<Rightarrow> bool" where
  "is_word c = (is_digit c \<or> c \<in> set ascii_upper \<or> c \<in> set ascii_lower \<or> c = CHR ''_'')"

definition lower_char :: "char \<Rightarrow> char" where
  "lower_char c = (case map_of (zip ascii_upper ascii_lower) c of Some d \<Rightarrow> d | None \<Rightarrow> c)"

definition upper_char :: "char \<Rightarrow> char" where
  "upper_char c = (case map_of (zip ascii_lower ascii_upper) c of Some d \<Rightarrow> d | None \<Rightarrow> c)"

text \<open>\<^verbatim>\<open>s.capitalize()\<close>: first character upper case, the rest lower case.\<close>

fun capitalize :: "string \<Rightarrow> string" where
  "capitalize [] = []"
| "capitalize (c # cs) = upper_char c # map lower_char cs"

text \<open>\<^verbatim>\<open>s.strip()\<close> and \<^verbatim>\<open>s.strip(chars)\<close>.\<close>

definition strip_with :: "(char \<Rightarrow> bool) \<Rightarrow> string \<Rightarrow> string" where
  "strip_with P s = rev (dropWhile P (rev (dropWhile P s)))"

definition strip :: "string \<Rightarrow> string" where
  "strip s = strip_with is_space s"

text \<open>
  \<^verbatim>\<open>s.split(sep)\<close> for a non-empty separator: the occurrences are found from the left
  and do not overlap. (Python raises on an empty separator; the script only passes the
  literals \<^verbatim>\<open>','\<close>, \<^verbatim>\<open>' - '\<close> and \<^verbatim>\<open>'_to_'\<close>.)
\<close>

fun split_from :: "string \<Rightarrow> string \<Rightarrow> string \<Rightarrow> string list" where
  "split_from sep cur [] = [cur]"
| "split_from sep cur (c # cs) =
     (if sep \<noteq> [] \<and> prefix sep (c # cs)
      then cur # split_from sep [] (drop (length sep) (c # cs))
      else split_from sep (cur @ [c]) cs)"

definition str_split :: "string \<Rightarrow> string \<Rightarrow> string list" where
  "str_split sep s = split_from sep [] s"

text \<open>\<^verbatim>\<open>sep.join(parts)\<close>.\<close>

fun str_join :: "string \<Rightarrow> string list \<Rightarrow> string" where
  "str_join sep [] = []"
| "str_join sep [p] = p"
| "str_join sep (p # q # ps) = p @ sep @ str_join sep (q # ps)"

text \<open>\<^verbatim>\<open>needle in s\<close> on strings.\<close>

fun contains :: "string \<Rightarrow> string \<Rightarrow> bool" where
  "contains needle [] = (needle = [])"
| "contains needle (c # cs) = (prefix needle (c # cs) \<or> contains needle cs)"

text \<open>
  Python integers are unbounded and modelled by \<open>int\<close>. \<open>show_int\<close> is the decimal
  rendering of \<^verbatim>\<open>str(n)\<close> and of f-strings.
\<close>

definition digit_char :: "int \<Rightarrow> char" where
  "digit_char d = ''0123456789'' ! nat d"

function show_digits :: "int \<Rightarrow> string" where
  "show_digits n =
     (if n < 10 then [digit_char n] else show_digits (n div 10) @ [digit_char (n mod 10)])"
  by pat_completeness auto
termination
  by (relation "measure nat") auto

declare show_digits.simps [simp del]

definition show_int :: "int \<Rightarrow> string" where
  "show_int n = (if n < 0 then CHR ''-'' # show_digits (- n) else show_digits n)"

text \<open>
  \<^verbatim>\<open>int(s)\<close> on a string of ASCII digits (a blank counts as nothing, as the blanks that
  \<^verbatim>\<open>int\<close> strips do).
\<close>

definition digit_val :: "char \<Rightarrow> int" where
  "digit_val c =
     (case map_of [(CHR ''0'', 0), (CHR ''1'', 1), (CHR ''2'', 2), (CHR ''3'', 3), (CHR ''4'', 4),
                   (CHR ''5'', 5), (CHR ''6'', 6), (CHR ''7'', 7), (CHR ''8'', 8), (CHR ''9'', 9)] c of
        Some d \<Rightarrow> d
      | None \<Rightarrow> 0)"

fun digits_value :: "int \<Rightarrow> string \<Rightarrow> int" where
  "digits_value acc [] = acc"
| "digits_value acc (c # cs) = digits_value (10 * acc + digit_val c) cs"

definition int_of_digits :: "string \<Rightarrow> int" where
  "int_of_digits s = digits_value 0 s"

section \<open>Structural Normalizer: \<^verbatim>\<open>fix_csv_structure\<close>\<close>

definition EXPECTED_COLUMNS :: "string list" where
  "EXPECTED_COLUMNS = [''Date'', ''Time'', ''Currency'', ''Event'', ''Impact'', ''Actual'',
                       ''Forecast'', ''Previous'', ''IsHoliday'', ''WeekRange'']"

definition expected_cols :: nat where
  "expected_cols = length EXPECTED_COLUMNS"

text \<open>\<^verbatim>\<open>line + ',' + ','.join([''] * missing_cols)\<close>\<close>

definition pad_line :: "string \<Rightarrow> nat \<Rightarrow> string" where
  "pad_line line missing_cols = line @ '','' @ str_join '','' (replicate missing_cols [])"

text \<open>
  The body of the loop over \<^verbatim>\<open>enumerate(lines)\<close> for one stripped, non-empty line:
  \<open>i\<close> is the position of the line in the file (the header is the line with \<open>i = 0\<close>).
\<close>

definition fix_line :: "nat \<Rightarrow> string \<Rightarrow> string" where
  "fix_line i line =
     (let estimated_cols = count_list line CHR '','' + 1 in
      if i = 0 then
        (if estimated_cols \<noteq> expected_cols \<and> estimated_cols < expected_cols
         then pad_line line (expected_cols - estimated_cols)
         else line)
      else if estimated_cols < expected_cols then
        pad_line line (expected_cols - estimated_cols)
      else if estimated_cols > expected_cols then
        (let parts = str_split '','' line in
         if length parts > expected_cols
         then str_join '','' (take (expected_cols - 1) parts
                               @ [str_join '','' (drop (expected_cols - 1) parts)])
         else line)
      else line)"

text \<open>The whole loop: blank lines are skipped, the others are stripped and fixed.\<close>

definition fixed_lines :: "string list \<Rightarrow> string list" where
  "fixed_lines lines =
     map (\<lambda>(i, l). fix_line i (strip l))
         (filter (\<lambda>(i, l). strip l \<noteq> []) (zip [0 ..< length lines] lines))"

text \<open>
  What is handed to \<^verbatim>\<open>pd.read_csv\<close>: the file itself when it has fewer than two
  lines, the fixed lines joined by newlines otherwise.
\<close>

definition fix_csv_structure_text :: "string list \<Rightarrow> string" where
  "fix_csv_structure_text lines =
     (if length lines < 2 then concat lines else str_join [CHR 0x0A] (fixed_lines lines))"

section \<open>Discovery of the incremental batches\<close>

text \<open>
  A path below the monthly root is the pair of its folder name and its file name;
  \<^verbatim>\<open>sorted\<close> compares \<^verbatim>\<open>Path\<close> objects part by part and strings by code point,
  which is the lexicographic order on pairs of character lists. The argument is the
  directory listing in the order the file system gives it: each entry of the root with its
  own entries. \<^verbatim>\<open>glob("* Batch")\<close> keeps the names ending in \<^verbatim>\<open>" Batch"\<close>,
  \<^verbatim>\<open>glob("*.csv")\<close> those ending in \<^verbatim>\<open>".csv"\<close>.
\<close>

type_synonym path = "string \<times> string"

definition monthly_csv_files :: "(string \<times> string list) list \<Rightarrow> path list" where
  "monthly_csv_files listing =
     sort (concat (map (\<lambda>(folder, files). map (\<lambda>f. (folder, f)) (filter (suffix ''.csv'') files))
                       (filter (\<lambda>(folder, files). suffix '' Batch'' folder) listing)))"

section \<open>The regular expressions of the script\<close>

text \<open>
  Every pattern of the script is a sequence of greedy repetitions of a character class,
  literals (alone or in an alternation), and the anchors
  \<^verbatim>\<open>^\<close>, \<^verbatim>\<open>$\<close> and \<^verbatim>\<open>\b\<close>. A pattern is modelled as the list
  of these atoms, and matching as the backtracking search of \<^verbatim>\<open>re\<close>: each atom offers
  its possible end positions in order of preference (longest repetition first, alternatives
  from left to right) and the first choice under which the rest of the pattern matches wins.
  The result lists the end position of every atom, from which the groups are cut.

  Literals occur only in patterns that are compiled with \<^verbatim>\<open>re.IGNORECASE\<close>, and
  they are written in lower case. The classes \<^verbatim>\<open>\d\<close>, \<^verbatim>\<open>\s\<close> and
  \<^verbatim>\<open>\w\<close> do not tell the cases of a letter apart, so such a pattern is matched
  against the lower-cased text (\<open>re_match_i\<close>, \<open>sub_delete_i\<close>); the positions found are
  positions of the text itself.
\<close>

datatype cls = Digit | Space | Word | Comma

fun in_cls :: "cls \<Rightarrow> char \<Rightarrow> bool" where
  "in_cls Digit c = is_digit c"
| "in_cls Space c = is_space c"
| "in_cls Word c = is_word c"
| "in_cls Comma c = (c = CHR '','')"

datatype atom =
    Rep cls nat "nat option"
  | AltI "string list"
  | Bol
  | Eol
  | WordB

definition rep_ends :: "cls \<Rightarrow> nat \<Rightarrow> nat option \<Rightarrow> string \<Rightarrow> nat \<Rightarrow> nat list" where
  "rep_ends c lo hi s i =
     (let run = length (takeWhile (in_cls c) (drop i s));
          n = (case hi of None \<Rightarrow> run | Some h \<Rightarrow> min h run)
      in map (\<lambda>k. i + k) (rev [lo ..< Suc n]))"

definition lit_at :: "string \<Rightarrow> string \<Rightarrow> nat \<Rightarrow> bool" where
  "lit_at w s i = prefix w (drop i s)"

definition word_at :: "string \<Rightarrow> nat \<Rightarrow> bool" where
  "word_at s i = (i < length s \<and> is_word (s ! i))"

definition word_before :: "string \<Rightarrow> nat \<Rightarrow> bool" where
  "word_before s i = (0 < i \<and> i \<le> length s \<and> is_word (s ! (i - 1)))"

fun atom_ends :: "atom \<Rightarrow> string \<Rightarrow> nat \<Rightarrow> nat list" where
  "atom_ends (Rep c lo hi) s i = rep_ends c lo hi s i"
| "atom_ends (AltI ws) s i = map (\<lambda>w. i + length w) (filter (\<lambda>w. lit_at w s i) ws)"
| "atom_ends Bol s i = (if i = 0 then [i] else [])"
| "atom_ends Eol s i =
     (if i = length s \<or> (Suc i = length s \<and> s ! i = CHR 0x0A) then [i] else [])"
| "atom_ends WordB s i = (if word_before s i \<noteq> word_at s i then [i] else [])"

text \<open>
  \<open>match_at rx s i\<close> matches the pattern from position \<open>i\<close>; \<open>try_ends rx s js\<close> tries
  the rest \<open>rx\<close> of a pattern after each of the end positions \<open>js\<close> of the atom before
  it, in their order.
\<close>

fun match_at :: "atom list \<Rightarrow> string \<Rightarrow> nat \<Rightarrow> nat list option"
  and try_ends :: "atom list \<Rightarrow> string \<Rightarrow> nat list \<Rightarrow> nat list option" where
  "match_at [] s i = Some []"
| "match_at (a # as) s i = try_ends as s (atom_ends a s i)"
| "try_ends as s [] = None"
| "try_ends as s (j # js) =
     (case match_at as s j of Some es \<Rightarrow> Some (j # es) | None \<Rightarrow> try_ends as s js)"

text \<open>\<^verbatim>\<open>re.match\<close> tries position 0 only, \<^verbatim>\<open>re.search\<close> every position from the left.\<close>

definition re_match_i :: "atom list \<Rightarrow> string \<Rightarrow> nat list option" where
  "re_match_i rx s = match_at rx (map lower_char s) 0"

fun search_from :: "atom list \<Rightarrow> string \<Rightarrow> nat list \<Rightarrow> (nat \<times> nat list) option" where
  "search_from rx s [] = None"
| "search_from rx s (i # is) =
     (case match_at rx s i of Some es \<Rightarrow> Some (i, es) | None \<Rightarrow> search_from rx s is)"

definition re_search :: "atom list \<Rightarrow> string \<Rightarrow> (nat \<times> nat list) option" where
  "re_search rx s = search_from rx s [0 ..< Suc (length s)]"

text \<open>The text between two positions, \<^verbatim>\<open>s[a:b]\<close>.\<close>

definition span :: "string \<Rightarrow> nat \<Rightarrow> nat \<Rightarrow> string" where
  "span s a b = take (b - a) (drop a s)"

text \<open>
  \<^verbatim>\<open>re.sub(rx, '', s)\<close>: the matches are found from the left, without overlap, and
  deleted. (None of the script's patterns matches the empty string.)
\<close>

function sub_delete :: "atom list \<Rightarrow> string \<Rightarrow> string \<Rightarrow> nat \<Rightarrow> string" where
  "sub_delete rx t s i =
     (if length s \<le> i then []
      else (case match_at rx t i of
              Some es \<Rightarrow>
                (if es \<noteq> [] \<and> i < last es then sub_delete rx t s (last es)
                 else s ! i # sub_delete rx t s (Suc i))
            | None \<Rightarrow> s ! i # sub_delete rx t s (Suc i)))"
  by pat_completeness auto
termination
  by (relation "measure (\<lambda>(rx, t, s, i). length s - i)") auto

declare sub_delete.simps [simp del]

definition sub_delete_i :: "atom list \<Rightarrow> string \<Rightarrow> string" where
  "sub_delete_i rx s = sub_delete rx (map lower_char s) s 0"

section \<open>Row Repair Engine\<close>

subsection \<open>Rows and frames\<close>

text \<open>
  \<^verbatim>\<open>pd.read_csv\<close> is called without \<^verbatim>\<open>dtype\<close>, so it types every column of every
  file on its own: a column whose fields are all integers holds integers, a column of
  \<^verbatim>\<open>True\<close>/\<^verbatim>\<open>False\<close> holds booleans, any other column holds the field texts, and
  an empty field is pandas' missing value \<open>NaN\<close>. \<^verbatim>\<open>optimize_dataframe\<close> converts the
  columns with \<^verbatim>\<open>astype('object')\<close> and \<^verbatim>\<open>astype('category')\<close>, which keep these
  values as they are. A cell is therefore one of these values, and two cells are equal
  for \<^verbatim>\<open>duplicated\<close> and \<^verbatim>\<open>drop_duplicates\<close> only when they are the same value: the
  text \<^verbatim>\<open>'5'\<close> and the integer \<^verbatim>\<open>5\<close> are different cells. Columns read as floating
  point numbers are not covered. \<^verbatim>\<open>str\<close> of a missing value is \<^verbatim>\<open>'nan'\<close>.

  A row has the ten columns of the schema. A frame is the list of its rows, each with
  its index label: \<^verbatim>\<open>read_csv\<close> and \<^verbatim>\<open>concat(..., ignore_index=True)\<close> label the rows
  \<open>0, 1, 2, \<dots>\<close>, while \<^verbatim>\<open>drop_duplicates\<close> keeps the labels of the rows it keeps.
\<close>

datatype cell = NaN | Str string | IntV int | BoolV bool

definition cell_str :: "cell \<Rightarrow> string" where
  "cell_str c = (case c of
       NaN \<Rightarrow> ''nan''
     | Str s \<Rightarrow> s
     | IntV n \<Rightarrow> show_int n
     | BoolV b \<Rightarrow> (if b then ''True'' else ''False''))"

record row =
  Date :: cell
  Time :: cell
  Currency :: cell
  Event :: cell
  Impact :: cell
  Actual :: cell
  Forecast :: cell
  Previous :: cell
  IsHoliday :: cell
  WeekRange :: cell

type_synonym 'r frame = "(nat \<times> 'r) list"

definition range_index :: "'r list \<Rightarrow> 'r frame" where
  "range_index rows = zip [0 ..< length rows] rows"

datatype error = FileNotFoundError | ReadError | KeyError

text \<open>\<^verbatim>\<open>df.loc[i, 'Date']\<close>: the label must exist.\<close>

definition loc_Date :: "row frame \<Rightarrow> nat \<Rightarrow> error + cell" where
  "loc_Date df i = (case map_of df i of None \<Rightarrow> Inl KeyError | Some r \<Rightarrow> Inr (Date r))"

definition set_Date :: "row frame \<Rightarrow> nat \<Rightarrow> string \<Rightarrow> row frame" where
  "set_Date df idx v = map (\<lambda>(l, r). if l = idx then (l, r\<lparr>Date := Str v\<rparr>) else (l, r)) df"

definition set_WeekRange :: "row frame \<Rightarrow> nat \<Rightarrow> string \<Rightarrow> row frame" where
  "set_WeekRange df idx v =
     map (\<lambda>(l, r). if l = idx then (l, r\<lparr>WeekRange := Str v\<rparr>) else (l, r)) df"

subsection \<open>\<^verbatim>\<open>is_broken_date\<close>\<close>

definition day_lit :: atom where
  "day_lit = AltI [''day'']"

definition broken_patterns :: "atom list list" where
  "broken_patterns =
     [ [Bol, Rep Digit 1 (Some 2), Rep Space 1 None, Rep Word 1 None, Rep Comma 0 (Some 1),
        Rep Space 0 None, Rep Word 0 None, day_lit, Rep Space 0 None, Eol],
       [Bol, Rep Word 0 None, day_lit, Rep Comma 0 (Some 1), Rep Space 0 None,
        Rep Digit 1 (Some 2), Rep Space 1 None, Rep Word 1 None, Rep Space 0 None, Eol],
       [Bol, Rep Digit 1 (Some 2), Rep Space 1 None, Rep Word 1 None, Rep Space 0 None, Eol],
       [Bol, Rep Word 1 None, Rep Space 1 None, Rep Digit 1 (Some 2), Rep Space 0 None, Eol] ]"

text \<open>\<^verbatim>\<open>\b(\d{4})\b\<close>\<close>

definition year_token :: "atom list" where
  "year_token = [WordB, Rep Digit 4 (Some 4), WordB]"

definition is_broken_date :: "string \<Rightarrow> bool" where
  "is_broken_date date_str =
     (date_str = []
      \<or> list_ex (\<lambda>pattern. re_match_i pattern (strip date_str) \<noteq> None) broken_patterns
      \<or> re_search year_token date_str = None)"

subsection \<open>\<^verbatim>\<open>extract_month_day_from_broken_date\<close>\<close>

definition weekday_rx :: "atom list" where
  "weekday_rx =
     [WordB,
      AltI [''monday'', ''tuesday'', ''wednesday'', ''thursday'', ''friday'', ''saturday'', ''sunday''],
      WordB, Rep Comma 0 (Some 1), Rep Space 0 None]"

definition day_month_rx :: "atom list" where
  "day_month_rx = [Rep Digit 1 (Some 2), Rep Space 1 None, Rep Word 1 None]"

definition month_day_rx :: "atom list" where
  "month_day_rx = [Rep Word 1 None, Rep Space 1 None, Rep Digit 1 (Some 2)]"

text \<open>\<^verbatim>\<open>s.isdigit()\<close>\<close>

definition isdigit :: "string \<Rightarrow> bool" where
  "isdigit s = (s \<noteq> [] \<and> list_all is_digit s)"

text \<open>
  Both patterns have the shape group, spaces, group; \<open>groups\<close> cuts the two groups out of
  a match that starts at \<open>i\<close>.
\<close>

definition groups :: "string \<Rightarrow> nat \<times> nat list \<Rightarrow> string \<times> string" where
  "groups s m = (case m of (i, es) \<Rightarrow> (span s i (es ! 0), span s (es ! 1) (es ! 2)))"

definition format_day_month :: "string \<times> string \<Rightarrow> string" where
  "format_day_month g =
     (case g of (g1, g2) \<Rightarrow>
        (if isdigit g1 then g1 @ '' '' @ capitalize g2 else g2 @ '' '' @ capitalize g1))"

definition extract_month_day_from_broken_date :: "string \<Rightarrow> string option" where
  "extract_month_day_from_broken_date broken_date =
     (let cleaned = strip_with (\<lambda>c. c = CHR '' '' \<or> c = CHR '','') (sub_delete_i weekday_rx broken_date)
      in case re_search day_month_rx cleaned of
           Some m \<Rightarrow> Some (format_day_month (groups cleaned m))
         | None \<Rightarrow>
             (case re_search month_day_rx cleaned of
                Some m \<Rightarrow> Some (format_day_month (groups cleaned m))
              | None \<Rightarrow> None))"

subsection \<open>\<^verbatim>\<open>fix_broken_date\<close>\<close>

text \<open>The year of the first 4-digit token of a date, if there is one.\<close>

definition year_of :: "string \<Rightarrow> int option" where
  "year_of nearby_date =
     (case re_search year_token nearby_date of
        None \<Rightarrow> None
      | Some (i, es) \<Rightarrow> Some (int_of_digits (span nearby_date (es ! 0) (es ! 1))))"

text \<open>
  \<^verbatim>\<open>range(max(0, broken_idx - 20), min(len(df), broken_idx + 21))\<close> without
  \<^verbatim>\<open>broken_idx\<close> itself.
\<close>

definition search_range :: nat where
  "search_range = 20"

definition window :: "nat \<Rightarrow> nat \<Rightarrow> nat list" where
  "window n broken_idx =
     filter (\<lambda>i. i \<noteq> broken_idx)
            [broken_idx - search_range ..< min n (broken_idx + search_range + 1)]"

fun nearby_years :: "row frame \<Rightarrow> nat list \<Rightarrow> error + int list" where
  "nearby_years df [] = Inr []"
| "nearby_years df (i # is) =
     (case loc_Date df i of
        Inl e \<Rightarrow> Inl e
      | Inr c \<Rightarrow>
          (case nearby_years df is of
             Inl e \<Rightarrow> Inl e
           | Inr ys \<Rightarrow>
               Inr ((case year_of (strip (cell_str c)) of None \<Rightarrow> [] | Some y \<Rightarrow> [y]) @ ys)))"

text \<open>
  \<^verbatim>\<open>max(set(nearby_years), key=nearby_years.count)\<close>: \<^verbatim>\<open>max\<close> keeps the first
  of the elements with the largest key, in the order in which the set is iterated. Python
  does not specify that order, so it is a parameter \<open>so\<close> of the model: \<open>so ys\<close> lists the
  distinct elements of \<open>ys\<close> in the order of iteration of \<^verbatim>\<open>set(ys)\<close>.
\<close>

fun max_by :: "('a \<Rightarrow> nat) \<Rightarrow> 'a \<Rightarrow> 'a list \<Rightarrow> 'a" where
  "max_by key best [] = best"
| "max_by key best (x # xs) = max_by key (if key best < key x then x else best) xs"

definition most_common :: "(int list \<Rightarrow> int list) \<Rightarrow> int list \<Rightarrow> int" where
  "most_common so ys = (case so ys of [] \<Rightarrow> 0 | x # xs \<Rightarrow> max_by (count_list ys) x xs)"

definition set_order :: "(int list \<Rightarrow> int list) \<Rightarrow> bool" where
  "set_order so = (\<forall>ys. distinct (so ys) \<and> set (so ys) = set ys)"

definition fallback_year :: int where
  "fallback_year = 2024"

definition fix_broken_date :: "(int list \<Rightarrow> int list) \<Rightarrow> row frame \<Rightarrow> nat \<Rightarrow> error + string" where
  "fix_broken_date so df broken_idx =
     (case loc_Date df broken_idx of
        Inl e \<Rightarrow> Inl e
      | Inr c \<Rightarrow>
          (case extract_month_day_from_broken_date (strip (cell_str c)) of
             None \<Rightarrow> Inr (strip (cell_str c))
           | Some month_day \<Rightarrow>
               (case nearby_years df (window (length df) broken_idx) of
                  Inl e \<Rightarrow> Inl e
                | Inr ys \<Rightarrow>
                    if ys \<noteq> [] then Inr (month_day @ '' '' @ show_int (most_common so ys))
                    else Inr (month_day @ '' '' @ show_int fallback_year))))"

subsection \<open>Calendar dates\<close>

text \<open>
  The date part of a \<^verbatim>\<open>datetime\<close>, with the proleptic Gregorian ordinal of
  CPython's \<^verbatim>\<open>datetime\<close> module (\<^verbatim>\<open>_ymd2ord\<close>, \<^verbatim>\<open>_ord2ymd\<close>):
  day 1 is 1 January of year 1, and the last day is 31 December 9999.
\<close>

record date =
  year :: int
  month :: int
  day :: int

definition is_leap :: "int \<Rightarrow> bool" where
  "is_leap y = (y mod 4 = 0 \<and> (y mod 100 \<noteq> 0 \<or> y mod 400 = 0))"

definition DAYS_IN_MONTH :: "int list" where
  "DAYS_IN_MONTH = [0, 31, 28, 31, 30, 31, 30, 31, 31, 30, 31, 30, 31]"

definition DAYS_BEFORE_MONTH :: "int list" where
  "DAYS_BEFORE_MONTH = [0, 0, 31, 59, 90, 120, 151, 181, 212, 243, 273, 304, 334]"

definition days_in_month :: "int \<Rightarrow> int \<Rightarrow> int" where
  "days_in_month y m = (if m = 2 \<and> is_leap y then 29 else DAYS_IN_MONTH ! nat m)"

definition days_before_year :: "int \<Rightarrow> int" where
  "days_before_year y = (y - 1) * 365 + (y - 1) div 4 - (y - 1) div 100 + (y - 1) div 400"

definition days_before_month :: "int \<Rightarrow> int \<Rightarrow> int" where
  "days_before_month y m = DAYS_BEFORE_MONTH ! nat m + (if m > 2 \<and> is_leap y then 1 else 0)"

definition valid_date :: "int \<Rightarrow> int \<Rightarrow> int \<Rightarrow> bool" where
  "valid_date y m d = (1 \<le> y \<and> y \<le> 9999 \<and> 1 \<le> m \<and> m \<le> 12 \<and> 1 \<le> d \<and> d \<le> days_in_month y m)"

definition ymd2ord :: "date \<Rightarrow> int" where
  "ymd2ord dt = days_before_year (year dt) + days_before_month (year dt) (month dt) + day dt"

definition MAXORDINAL :: int where
  "MAXORDINAL = 3652059"

definition ord2ymd :: "int \<Rightarrow> date" where
  "ord2ymd ordinal =
     (let n0 = ordinal - 1;
          n400 = n0 div 146097; n1' = n0 mod 146097;
          n100 = n1' div 36524; n2' = n1' mod 36524;
          n4 = n2' div 1461; n3' = n2' mod 1461;
          n1 = n3' div 365; n = n3' mod 365;
          y = n400 * 400 + 1 + n100 * 100 + n4 * 4 + n1
      in if n1 = 4 \<or> n100 = 4 then \<lparr>year = y - 1, month = 12, day = 31\<rparr>
         else
           let leapyear = (n1 = 3 \<and> (n4 \<noteq> 24 \<or> n100 = 3));
               m0 = (n + 50) div 32;
               preceding0 = DAYS_BEFORE_MONTH ! nat m0 + (if m0 > 2 \<and> leapyear then 1 else 0);
               m = (if preceding0 > n then m0 - 1 else m0);
               preceding = (if preceding0 > n
                            then preceding0 - (DAYS_IN_MONTH ! nat m + (if m = 2 \<and> leapyear then 1 else 0))
                            else preceding0)
           in \<lparr>year = y, month = m, day = n - preceding + 1\<rparr>)"

text \<open>\<^verbatim>\<open>datetime.weekday()\<close>: Monday is 0.\<close>

definition weekday :: "date \<Rightarrow> int" where
  "weekday dt = (ymd2ord dt + 6) mod 7"

definition month_names :: "string list" where
  "month_names = [''January'', ''February'', ''March'', ''April'', ''May'', ''June'', ''July'',
                  ''August'', ''September'', ''October'', ''November'', ''December'']"

definition month_abbrs :: "string list" where
  "month_abbrs = [''Jan'', ''Feb'', ''Mar'', ''Apr'', ''May'', ''Jun'', ''Jul'', ''Aug'', ''Sep'',
                  ''Oct'', ''Nov'', ''Dec'']"

text \<open>\<^verbatim>\<open>strftime\<close> directives \<^verbatim>\<open>%d\<close>, \<^verbatim>\<open>%b\<close>, \<^verbatim>\<open>%B\<close>, \<^verbatim>\<open>%Y\<close> (C locale;
  \<^verbatim>\<open>%Y\<close> as glibc prints it, without padding).\<close>

definition strf_d :: "int \<Rightarrow> string" where
  "strf_d d = (if d < 10 then CHR ''0'' # show_int d else show_int d)"

definition strf_b :: "int \<Rightarrow> string" where
  "strf_b m = month_abbrs ! nat (m - 1)"

definition strf_B :: "int \<Rightarrow> string" where
  "strf_B m = month_names ! nat (m - 1)"

definition strf_Y :: "int \<Rightarrow> string" where
  "strf_Y y = show_int y"

subsection \<open>\<^verbatim>\<open>datetime.strptime\<close>\<close>

text \<open>
  \<^verbatim>\<open>_strptime\<close> turns a format into a regular expression, matches it at the start of
  the string ignoring case, and raises \<^verbatim>\<open>ValueError\<close> when nothing matches, when text
  remains after the match, or when the fields are no calendar date. A run of white space in
  the format stands for \<^verbatim>\<open>\s+\<close>. \<open>None\<close> is the \<^verbatim>\<open>ValueError\<close>.
\<close>

datatype directive = Pct_d | Pct_m | Pct_Y | Pct_B | Pct_b

datatype fmt = D directive | Wsp | Lit char

text \<open>\<^verbatim>\<open>3[0-1]|[1-2]\d|0[1-9]|[1-9]| [1-9]\<close> and \<^verbatim>\<open>1[0-2]|0[1-9]|[1-9]\<close>, written out.\<close>

definition nonzero_digits :: string where
  "nonzero_digits = ''123456789''"

definition pct_d_alts :: "string list" where
  "pct_d_alts =
     [''30'', ''31'',
      ''10'', ''11'', ''12'', ''13'', ''14'', ''15'', ''16'', ''17'', ''18'', ''19'',
      ''20'', ''21'', ''22'', ''23'', ''24'', ''25'', ''26'', ''27'', ''28'', ''29'',
      ''01'', ''02'', ''03'', ''04'', ''05'', ''06'', ''07'', ''08'', ''09'']
     @ map (\<lambda>c. [c]) nonzero_digits @ map (\<lambda>c. [CHR '' '', c]) nonzero_digits"

definition pct_m_alts :: "string list" where
  "pct_m_alts =
     [''10'', ''11'', ''12'',
      ''01'', ''02'', ''03'', ''04'', ''05'', ''06'', ''07'', ''08'', ''09'']
     @ map (\<lambda>c. [c]) nonzero_digits"

text \<open>The month names of \<^verbatim>\<open>%B\<close>, longest first as \<^verbatim>\<open>_strptime\<close> orders them.\<close>

definition pct_B_alts :: "string list" where
  "pct_B_alts = [''september'', ''february'', ''november'', ''december'', ''january'', ''october'',
                 ''august'', ''march'', ''april'', ''june'', ''july'', ''may'']"

definition pct_b_alts :: "string list" where
  "pct_b_alts = [''jan'', ''feb'', ''mar'', ''apr'', ''may'', ''jun'', ''jul'', ''aug'', ''sep'',
                 ''oct'', ''nov'', ''dec'']"

text \<open>The lower-case month names in calendar order, in which a matched name is looked up.\<close>

definition f_month :: "string list" where
  "f_month = [''january'', ''february'', ''march'', ''april'', ''may'', ''june'', ''july'',
              ''august'', ''september'', ''october'', ''november'', ''december'']"

fun fmt_atom :: "fmt \<Rightarrow> atom" where
  "fmt_atom (D Pct_d) = AltI pct_d_alts"
| "fmt_atom (D Pct_m) = AltI pct_m_alts"
| "fmt_atom (D Pct_Y) = Rep Digit 4 (Some 4)"
| "fmt_atom (D Pct_B) = AltI pct_B_alts"
| "fmt_atom (D Pct_b) = AltI pct_b_alts"
| "fmt_atom Wsp = Rep Space 1 None"
| "fmt_atom (Lit c) = AltI [[c]]"

text \<open>The text matched by each directive of the format.\<close>

fun dir_texts :: "string \<Rightarrow> fmt list \<Rightarrow> nat \<Rightarrow> nat list \<Rightarrow> (directive \<times> string) list" where
  "dir_texts s (D d # fs) a (e # es) = (d, span s a e) # dir_texts s fs e es"
| "dir_texts s (f # fs) a (e # es) = dir_texts s fs e es"
| "dir_texts s fs a es = []"

text \<open>The position of a name in a list of names, counted from 1 (0 when absent).\<close>

fun index_of :: "string \<Rightarrow> string list \<Rightarrow> int" where
  "index_of w [] = 0"
| "index_of w (x # xs) = (if w = x then 1 else (let k = index_of w xs in if k = 0 then 0 else k + 1))"

definition month_of_fields :: "(directive \<times> string) list \<Rightarrow> int" where
  "month_of_fields found =
     (case map_of found Pct_m of
        Some t \<Rightarrow> int_of_digits t
      | None \<Rightarrow>
          (case map_of found Pct_B of
             Some t \<Rightarrow> index_of (map lower_char t) f_month
           | None \<Rightarrow>
               (case map_of found Pct_b of
                  Some t \<Rightarrow> index_of (map lower_char t) pct_b_alts
                | None \<Rightarrow> 1)))"

definition strptime :: "string \<Rightarrow> fmt list \<Rightarrow> date option" where
  "strptime s f =
     (case re_match_i (map fmt_atom f) s of
        None \<Rightarrow> None
      | Some es \<Rightarrow>
          if es = [] \<or> last es \<noteq> length s then None
          else
            let found = dir_texts s f 0 es;
                y = (case map_of found Pct_Y of Some t \<Rightarrow> int_of_digits t | None \<Rightarrow> 1900);
                m = month_of_fields found;
                d = (case map_of found Pct_d of Some t \<Rightarrow> int_of_digits t | None \<Rightarrow> 1)
            in if valid_date y m d then Some \<lparr>year = y, month = m, day = d\<rparr> else None)"

subsection \<open>\<^verbatim>\<open>generate_weekrange_from_date\<close>\<close>

definition date_formats :: "fmt list list" where
  "date_formats =
     [ [D Pct_d, Wsp, D Pct_B, Wsp, D Pct_Y],
       [D Pct_d, Wsp, D Pct_b, Wsp, D Pct_Y],
       [D Pct_B, Wsp, D Pct_d, Wsp, D Pct_Y],
       [D Pct_b, Wsp, D Pct_d, Wsp, D Pct_Y],
       [D Pct_Y, Lit CHR ''-'', D Pct_m, Lit CHR ''-'', D Pct_d],
       [D Pct_d, Lit CHR ''/'', D Pct_m, Lit CHR ''/'', D Pct_Y],
       [D Pct_m, Lit CHR ''/'', D Pct_d, Lit CHR ''/'', D Pct_Y] ]"

text \<open>The first format that parses.\<close>

fun first_parse :: "string \<Rightarrow> fmt list list \<Rightarrow> date option" where
  "first_parse s [] = None"
| "first_parse s (f # fs) = (case strptime s f of Some dt \<Rightarrow> Some dt | None \<Rightarrow> first_parse s fs)"

text \<open>
  The two renderings of a week from \<open>week_start\<close> to \<open>week_end\<close>.
\<close>

definition format_week :: "date \<Rightarrow> date \<Rightarrow> string" where
  "format_week week_start week_end =
     (if month week_start = month week_end
      then show_int (day week_start) @ '' - '' @ show_int (day week_end) @ '' ''
           @ strf_b (month week_end) @ '', '' @ strf_Y (year week_end)
      else strf_d (day week_start) @ '' '' @ strf_b (month week_start) @ '' - ''
           @ strf_d (day week_end) @ '' '' @ strf_b (month week_end) @ '', '' @ strf_Y (year week_end))"

text \<open>
  Subtracting the days since Monday or adding six days can leave the range of
  \<^verbatim>\<open>datetime\<close>; the \<^verbatim>\<open>OverflowError\<close> is caught by the outer \<^verbatim>\<open>except\<close> and
  the result is the empty string, as it is when no format parses.
\<close>

definition generate_weekrange_from_date :: "cell \<Rightarrow> string" where
  "generate_weekrange_from_date date_str =
     (case first_parse (strip (cell_str date_str)) date_formats of
        None \<Rightarrow> []
      | Some parsed_date \<Rightarrow>
          let days_since_monday = weekday parsed_date;
              n = ymd2ord parsed_date
          in if n - days_since_monday < 1 then []
             else if n - days_since_monday + 6 > MAXORDINAL then []
             else format_week (ord2ymd (n - days_since_monday))
                              (ord2ymd (n - days_since_monday + 6)))"

subsection \<open>\<^verbatim>\<open>detect_and_fix_broken_rows\<close>\<close>

definition cells :: "row \<Rightarrow> cell list" where
  "cells r = [Date r, Time r, Currency r, Event r, Impact r, Actual r, Forecast r, Previous r,
              IsHoliday r, WeekRange r]"

definition nan_count :: "row \<Rightarrow> nat" where
  "nan_count r = length (filter (\<lambda>c. c = NaN) (cells r))"

definition broken_date_row :: "row \<Rightarrow> bool" where
  "broken_date_row r = is_broken_date (strip (cell_str (Date r)))"

definition missing_weekrange :: "row \<Rightarrow> bool" where
  "missing_weekrange r = (WeekRange r = NaN \<or> strip (cell_str (WeekRange r)) = [])"

definition too_many_missing :: "row \<Rightarrow> bool" where
  "too_many_missing r = (nan_count r > 3)"

text \<open>The messages collected for a row in the first loop.\<close>

definition row_issues :: "row \<Rightarrow> string list" where
  "row_issues r =
     (if broken_date_row r
      then [''Broken date: '' @ [CHR 0x27] @ strip (cell_str (Date r)) @ [CHR 0x27]] else [])
     @ (if missing_weekrange r then [''Missing WeekRange''] else [])
     @ (if too_many_missing r then [''Too many missing values: '' @ show_int (int (nan_count r))] else [])"

fun broken_rows :: "row frame \<Rightarrow> (nat \<times> string list) list" where
  "broken_rows [] = []"
| "broken_rows ((idx, r) # df) =
     (case row_issues r of
        [] \<Rightarrow> broken_rows df
      | issue # issues \<Rightarrow> (idx, issue # issues) # broken_rows df)"

text \<open>
  The second loop: the rows found are fixed one after the other, each fix reading the frame
  as the earlier fixes left it. A fix is chosen by looking for its name inside the messages.
\<close>

definition fix_date_of :: "(int list \<Rightarrow> int list) \<Rightarrow> nat \<Rightarrow> string list \<Rightarrow> row frame
                           \<Rightarrow> error + row frame" where
  "fix_date_of so idx issues df =
     (if list_ex (contains ''Broken date'') issues
      then (case fix_broken_date so df idx of
              Inl e \<Rightarrow> Inl e
            | Inr fixed_date \<Rightarrow> Inr (set_Date df idx fixed_date))
      else Inr df)"

definition fix_weekrange_of :: "nat \<Rightarrow> string list \<Rightarrow> row frame \<Rightarrow> error + row frame" where
  "fix_weekrange_of idx issues df =
     (if list_ex (contains ''Missing WeekRange'') issues
      then (case loc_Date df idx of
              Inl e \<Rightarrow> Inl e
            | Inr c \<Rightarrow> Inr (set_WeekRange df idx (generate_weekrange_from_date c)))
      else Inr df)"

fun fix_rows :: "(int list \<Rightarrow> int list) \<Rightarrow> (nat \<times> string list) list \<Rightarrow> row frame
                 \<Rightarrow> error + row frame" where
  "fix_rows so [] df = Inr df"
| "fix_rows so ((idx, issues) # rest) df =
     (case fix_date_of so idx issues df of
        Inl e \<Rightarrow> Inl e
      | Inr df1 \<Rightarrow>
          (case fix_weekrange_of idx issues df1 of
             Inl e \<Rightarrow> Inl e
           | Inr df2 \<Rightarrow> fix_rows so rest df2))"

definition detect_and_fix_broken_rows :: "(int list \<Rightarrow> int list) \<Rightarrow> row frame \<Rightarrow> error + row frame" where
  "detect_and_fix_broken_rows so df = fix_rows so (broken_rows df) df"

section \<open>Boundary-Year Corrector: \<^verbatim>\<open>fix_december_week_overlap\<close>\<close>

text \<open>\<^verbatim>\<open>,\s*(\d{4})$\<close>\<close>

definition year_at_end_rx :: "atom list" where
  "year_at_end_rx = [Rep Comma 1 (Some 1), Rep Space 0 None, Rep Digit 4 (Some 4), Eol]"

definition year_at_end :: "string \<Rightarrow> int option" where
  "year_at_end part =
     (case re_search year_at_end_rx part of
        None \<Rightarrow> None
      | Some (i, es) \<Rightarrow> Some (int_of_digits (span part (es ! 1) (es ! 2))))"

text \<open>
  \<^verbatim>\<open>Timestamp.replace(year=...)\<close> raises when the result cannot be represented; with
  the nanosecond resolution of a parsed timestamp a December date exists for the years
  1677 to 2261. The exception is swallowed by the \<^verbatim>\<open>except\<close> of the loop.
\<close>

definition replace_year_ok :: "int \<Rightarrow> bool" where
  "replace_year_ok y = (1677 \<le> y \<and> y \<le> 2261)"

text \<open>\<^verbatim>\<open>strftime('%d %B %Y')\<close>\<close>

definition strftime_d_B_Y :: "date \<Rightarrow> string" where
  "strftime_d_B_Y dt = strf_d (day dt) @ '' '' @ strf_B (month dt) @ '' '' @ strf_Y (year dt)"

text \<open>
  The body of the loop for one row. \<open>to_datetime\<close> stands for
  \<^verbatim>\<open>pd.to_datetime(date_str, dayfirst=True, errors='coerce')\<close>, with \<open>None\<close> for
  \<^verbatim>\<open>NaT\<close>; pandas is not part of the repository, so the parser is a parameter.
\<close>

definition fix_december_row :: "(string \<Rightarrow> date option) \<Rightarrow> row \<Rightarrow> row" where
  "fix_december_row to_datetime r =
     (let date_str = strip (cell_str (Date r));
          week_range = strip (cell_str (WeekRange r))
      in if week_range = [] \<or> \<not> contains '' - '' week_range then r
         else
           let week_parts = str_split '' - '' week_range in
           if length week_parts \<noteq> 2 then r
           else
             case (year_at_end (strip (week_parts ! 0)), year_at_end (strip (week_parts ! 1))) of
               (Some start_year, Some end_year) \<Rightarrow>
                 if end_year > start_year then
                   (case to_datetime date_str of
                      None \<Rightarrow> r
                    | Some current_date \<Rightarrow>
                        if month current_date = 12 \<and> year current_date = end_year then
                          (if replace_year_ok start_year
                           then r\<lparr>Date := Str (strftime_d_B_Y (current_date\<lparr>year := start_year\<rparr>))\<rparr>
                           else r)
                        else r)
                 else r
             | _ \<Rightarrow> r)"

definition fix_december_week_overlap :: "(string \<Rightarrow> date option) \<Rightarrow> row frame \<Rightarrow> row frame" where
  "fix_december_week_overlap to_datetime df = map (\<lambda>(idx, r). (idx, fix_december_row to_datetime r)) df"

text \<open>
  For worked examples: the dates written \<^verbatim>\<open>D Month YYYY\<close> with a year from 1678 to
  2261, which \<^verbatim>\<open>pd.to_datetime\<close> reads as that day. (pandas accepts many more
  spellings; this function only serves as a concrete parser in examples.)
\<close>

definition to_datetime_d_B_Y :: "string \<Rightarrow> date option" where
  "to_datetime_d_B_Y s =
     (case strptime s [D Pct_d, Wsp, D Pct_B, Wsp, D Pct_Y] of
        None \<Rightarrow> None
      | Some dt \<Rightarrow> if 1678 \<le> year dt \<and> year dt \<le> 2261 then Some dt else None)"

section \<open>Incremental Merge Engine\<close>

subsection \<open>Duplicates\<close>

text \<open>\<^verbatim>\<open>duplicated(keep='first')\<close>: a row is a duplicate when an equal row comes before it.\<close>

fun duplicated_from :: "'a list \<Rightarrow> 'a list \<Rightarrow> bool list" where
  "duplicated_from seen [] = []"
| "duplicated_from seen (x # xs) = (x \<in> set seen) # duplicated_from (x # seen) xs"

definition duplicated :: "'a list \<Rightarrow> bool list" where
  "duplicated xs = duplicated_from [] xs"

text \<open>\<^verbatim>\<open>drop_duplicates\<close> keeps the first occurrences, with their labels.\<close>

definition drop_duplicates :: "'r frame \<Rightarrow> 'r frame" where
  "drop_duplicates df = map fst (filter (\<lambda>(lr, dup). \<not> dup) (zip df (duplicated (map snd df))))"

text \<open>
  The union of one repaired batch with the accumulated frame:
  \<^verbatim>\<open>combined = concat([merged_df, batch_df], ignore_index=True)\<close>, the mask of the rows
  that are no duplicates, the rows of \<^verbatim>\<open>combined[mask].iloc[len(merged_df):]\<close>, and the
  new accumulated frame when there are such rows.
\<close>

definition merge_batch :: "'r frame \<Rightarrow> 'r frame \<Rightarrow> 'r frame" where
  "merge_batch merged_df batch_df =
     (let combined = map snd merged_df @ map snd batch_df;
          new_rows_mask = map Not (duplicated combined);
          new_rows_df = drop (length merged_df) (map fst (filter snd (zip combined new_rows_mask)))
      in if length new_rows_df > 0 then range_index (map snd merged_df @ new_rows_df)
         else merged_df)"

subsection \<open>The output file name\<close>

text \<open>\<^verbatim>\<open>PurePath.stem\<close>: the name without its last suffix.\<close>

definition stem :: "string \<Rightarrow> string" where
  "stem name =
     (if CHR ''.'' \<notin> set name then name
      else let after = length (takeWhile (\<lambda>c. c \<noteq> CHR ''.'') (rev name));
               i = length name - after - 1
           in if 0 < i \<and> 0 < after then take i name else name)"

text \<open>The characters removed by \<^verbatim>\<open>re.sub(r'[<>:"/\\|?*]', '', merged_filename)\<close>.\<close>

definition illegal_chars :: "char list" where
  "illegal_chars = [CHR ''<'', CHR ''>'', CHR '':'', CHR 0x22, CHR ''/'', CHR 0x5C, CHR ''|'',
                    CHR ''?'', CHR ''*'']"

definition first_part :: "string list \<Rightarrow> string" where
  "first_part parts = (case parts of [] \<Rightarrow> [] | p # ps \<Rightarrow> p)"

text \<open>
  \<open>latest_monthly_csv\<close> is the file name of the last incremental batch the loop went
  through, \<open>None\<close> when there was none.
\<close>

definition merged_filename :: "string \<Rightarrow> string option \<Rightarrow> string" where
  "merged_filename main_csv latest_monthly_csv =
     (let main_stem = stem main_csv;
          name = (case latest_monthly_csv of
                    Some monthly_csv \<Rightarrow>
                      first_part (str_split ''_to_'' (stem monthly_csv)) @ ''_to_''
                      @ str_join ''_to_'' (tl (str_split ''_to_'' main_stem))
                  | None \<Rightarrow> main_stem)
      in filter (\<lambda>c. c \<notin> set illegal_chars) name)"

subsection \<open>\<^verbatim>\<open>main\<close>\<close>

text \<open>
  Reading a batch file is \<open>load\<close>: what \<^verbatim>\<open>fix_csv_structure\<close> and the alignment of
  the columns with the schema make of the file at a path, \<open>Inl\<close> the exception when they
  raise one (the file cannot be opened or parsed), \<open>Inr\<close> the rows otherwise. There is no
  \<^verbatim>\<open>try\<close> around any step of \<^verbatim>\<open>main\<close>, so an exception ends the run; the result of
  a run that ends normally is the name of the file written and its rows.
\<close>

definition process_batch :: "(int list \<Rightarrow> int list) \<Rightarrow> (path \<Rightarrow> error + row list) \<Rightarrow> row frame
                             \<Rightarrow> path \<Rightarrow> error + row frame" where
  "process_batch so load merged_df csv_file =
     (case load csv_file of
        Inl e \<Rightarrow> Inl e
      | Inr rows \<Rightarrow>
          (case detect_and_fix_broken_rows so (range_index rows) of
             Inl e \<Rightarrow> Inl e
           | Inr batch_df \<Rightarrow> Inr (merge_batch merged_df batch_df)))"

fun merge_monthly :: "(int list \<Rightarrow> int list) \<Rightarrow> (path \<Rightarrow> error + row list) \<Rightarrow> row frame
                       \<Rightarrow> path option \<Rightarrow> path list \<Rightarrow> error + (row frame \<times> path option)" where
  "merge_monthly so load merged_df latest_monthly_csv [] = Inr (merged_df, latest_monthly_csv)"
| "merge_monthly so load merged_df latest_monthly_csv (csv_file # rest) =
     (case process_batch so load merged_df csv_file of
        Inl e \<Rightarrow> Inl e
      | Inr merged_df' \<Rightarrow> merge_monthly so load merged_df' (Some csv_file) rest)"

definition main :: "(int list \<Rightarrow> int list) \<Rightarrow> (string \<Rightarrow> date option) \<Rightarrow> (path \<Rightarrow> error + row list)
                     \<Rightarrow> string \<Rightarrow> string list \<Rightarrow> (string \<times> string list) list
                     \<Rightarrow> error + (string \<times> row list)" where
  "main so to_datetime load main_batch_folder main_listing monthly_listing =
     (case filter (suffix ''.csv'') main_listing of
        [] \<Rightarrow> Inl FileNotFoundError
      | main_csv # others \<Rightarrow>
          (case load (main_batch_folder, main_csv) of
             Inl e \<Rightarrow> Inl e
           | Inr rows \<Rightarrow>
          (case detect_and_fix_broken_rows so (range_index rows) of
             Inl e \<Rightarrow> Inl e
           | Inr df \<Rightarrow>
          (case merge_monthly so load (drop_duplicates df) None (monthly_csv_files monthly_listing) of
             Inl e \<Rightarrow> Inl e
           | Inr (merged_df, latest_monthly_csv) \<Rightarrow>
          (case detect_and_fix_broken_rows so (fix_december_week_overlap to_datetime merged_df) of
             Inl e \<Rightarrow> Inl e
           | Inr final_df \<Rightarrow>
               Inr (merged_filename main_csv (map_option snd latest_monthly_csv) @ ''.csv'',
                    map snd final_df))))))"

section \<open>Example data\<close>

text \<open>A row of the calendar with a given date and week range, for worked examples.\<close>

definition example_row :: "cell \<Rightarrow> cell \<Rightarrow> row" where
  "example_row d w =
     \<lparr>Date = d, Time = Str ''10:00'', Currency = Str ''USD'', Event = Str ''CPI m/m'',
      Impact = Str ''high'', Actual = Str ''0.4%'', Forecast = Str ''0.3%'',
      Previous = Str ''0.2%'', IsHoliday = BoolV False, WeekRange = w\<rparr>"

section \<open>Facts about the string functions\<close>

lemma split_from_nonempty: "split_from sep cur s \<noteq> []"
  by (induction sep cur s rule: split_from.induct) auto

lemma str_join_Cons: "ps \<noteq> [] \<Longrightarrow> str_join sep (p # ps) = p @ sep @ str_join sep ps"
  by (cases ps) auto

lemma join_split_from: "str_join sep (split_from sep cur s) = cur @ s"
proof (induction sep cur s rule: split_from.induct)
  case (1 sep cur)
  then show ?case by simp
next
  case (2 sep cur c cs)
  show ?case
  proof (cases "sep \<noteq> [] \<and> prefix sep (c # cs)")
    case True
    then obtain rest where r: "c # cs = sep @ rest" by (auto simp: prefix_def)
    from True 2 have ih: "str_join sep (split_from sep [] (drop (length sep) (c # cs))) = drop (length sep) (c # cs)"
      by simp
    from True have "split_from sep cur (c # cs) = cur # split_from sep [] (drop (length sep) (c # cs))"
      by simp
    then have "str_join sep (split_from sep cur (c # cs))
                 = cur @ sep @ str_join sep (split_from sep [] (drop (length sep) (c # cs)))"
      by (simp only: str_join_Cons[OF split_from_nonempty])
    also have "\<dots> = cur @ sep @ drop (length sep) (c # cs)" by (simp only: ih)
    also have "\<dots> = cur @ c # cs" using r by simp
    finally show ?thesis .
  next
    case False
    with 2 show ?thesis by auto
  qed
qed

lemma join_split: "str_join sep (str_split sep s) = s"
  by (simp add: str_split_def join_split_from)

lemma length_split_from_char:
  "length (split_from [d] cur s) = count_list s d + 1"
  by (induction "[d]" cur s rule: split_from.induct) auto

lemma length_split_comma: "length (str_split '','' s) = count_list s CHR '','' + 1"
  by (simp add: str_split_def length_split_from_char)

lemma split_from_char_append:
  "split_from [d] cur (s @ t)
     = butlast (split_from [d] cur s) @ split_from [d] (last (split_from [d] cur s)) t"
  by (induction "[d]" cur s rule: split_from.induct) (auto simp: split_from_nonempty)

lemma split_from_char_replicate: "split_from [d] cur (replicate m d) = cur # replicate m []"
  by (induction m arbitrary: cur) auto

lemma join_replicate_empty: "str_join [d] (replicate (Suc m) []) = replicate m d"
  by (induction m) auto

lemma join_take_drop:
  "n < length ps \<Longrightarrow> str_join sep (take n ps @ [str_join sep (drop n ps)]) = str_join sep ps"
proof (induction n arbitrary: ps)
  case 0
  then show ?case by simp
next
  case (Suc n)
  then obtain p qs where ps: "ps = p # qs" by (cases ps) auto
  with Suc have "n < length qs" by simp
  with Suc.IH have ih: "str_join sep (take n qs @ [str_join sep (drop n qs)]) = str_join sep qs" by blast
  have ne: "take n qs @ [str_join sep (drop n qs)] \<noteq> []" by simp
  from \<open>n < length qs\<close> have ne2: "qs \<noteq> []" by auto
  show ?case using ih by (simp add: ps str_join_Cons[OF ne] str_join_Cons[OF ne2])
qed

section \<open>Structural Normalizer\<close>

text \<open>
  A line with fewer comma-separated fields than the schema is padded with empty fields:
  the fields of the output are the fields of the (stripped) line followed by empty ones,
  so there are exactly \<open>expected_cols\<close> of them. This holds for the header and for data lines.
\<close>

lemma pad_line_fields:
  assumes "0 < m"
  shows "str_split '','' (pad_line line m) = str_split '','' line @ replicate m []"
proof -
  obtain k where m: "m = Suc k" using assms by (cases m) auto
  have "str_join '','' (replicate (Suc k) []) = replicate k CHR '',''"
    by (rule join_replicate_empty)
  then have "pad_line line m = line @ CHR '','' # replicate k CHR '',''"
    by (simp add: pad_line_def m del: replicate_Suc)
  then have "pad_line line m = line @ replicate m CHR '',''"
    by (simp add: m)
  then show ?thesis
    by (simp add: str_split_def split_from_char_append split_from_char_replicate
                  split_from_nonempty)
qed

lemma fix_line_short:
  assumes "count_list line CHR '','' + 1 < expected_cols"
  shows "str_split '','' (fix_line i line)
           = str_split '','' line @ replicate (expected_cols - (count_list line CHR '','' + 1)) []"
  using assms by (simp add: fix_line_def Let_def pad_line_fields)

lemma fix_line_short_length:
  assumes "count_list line CHR '','' + 1 < expected_cols"
  shows "length (str_split '','' (fix_line i line)) = expected_cols"
  using assms by (simp add: fix_line_short length_split_comma)

text \<open>A line with exactly \<open>expected_cols\<close> fields passes through.\<close>

lemma fix_line_exact:
  assumes "count_list line CHR '','' + 1 = expected_cols"
  shows "fix_line i line = line"
  using assms by (simp add: fix_line_def Let_def)

text \<open>
  A line with more fields than the schema also comes out as it went in: the surplus parts
  are joined with the very delimiter they were split on, and the new last part is joined
  to the others with it again.
\<close>

lemma fix_line_surplus:
  assumes "count_list line CHR '','' + 1 > expected_cols"
  shows "fix_line i line = line"
proof -
  have "expected_cols - 1 < length (str_split '','' line)"
    using assms by (simp add: length_split_comma)
  then have "str_join '','' (take (expected_cols - 1) (str_split '','' line)
                               @ [str_join '','' (drop (expected_cols - 1) (str_split '','' line))]) = line"
    by (simp add: join_take_drop join_split)
  then show ?thesis using assms by (simp add: fix_line_def Let_def)
qed

text \<open>
  C6. A data line with a surplus field (here an unescaped comma inside the event text,
  eleven fields) is meant to come out with the fields from position nine onward merged
  into one final field. The output of \<open>fix_line\<close> is the input line, and it still
  splits into eleven fields.
\<close>

theorem surplus_fields_not_merged:
  "fix_line 1 ''2 March 2021,10:00,USD,Fed speech, part two,high,N/A,N/A,N/A,False,1 - 7 Mar 2021''
     = ''2 March 2021,10:00,USD,Fed speech, part two,high,N/A,N/A,N/A,False,1 - 7 Mar 2021''
   \<and> length (str_split '',''
         (fix_line 1 ''2 March 2021,10:00,USD,Fed speech, part two,high,N/A,N/A,N/A,False,1 - 7 Mar 2021''))
       = 11
   \<and> expected_cols = 10"
  by (simp add: fix_line_def expected_cols_def EXPECTED_COLUMNS_def str_split_def)

section \<open>Discovery order\<close>

text \<open>
  C1. Two period folders, \<^verbatim>\<open>January 2021 Batch\<close> and \<^verbatim>\<open>February 2021 Batch\<close>,
  each with one file. Whatever the listing order, the sorted list of paths, which is the
  processing order of the merge loop, has the February file first.
\<close>

theorem february_processed_before_january:
  "monthly_csv_files [(''January 2021 Batch'', [''jan.csv'']), (''February 2021 Batch'', [''feb.csv''])]
     = [(''February 2021 Batch'', ''feb.csv''), (''January 2021 Batch'', ''jan.csv'')]
   \<and> monthly_csv_files [(''February 2021 Batch'', [''feb.csv'']), (''January 2021 Batch'', [''jan.csv''])]
     = [(''February 2021 Batch'', ''feb.csv''), (''January 2021 Batch'', ''jan.csv'')]"
  by (simp add: monthly_csv_files_def suffix_to_prefix)

section \<open>Merging a batch into the accumulated frame\<close>

lemma map_snd_range_index: "map snd (range_index rows) = rows"
  by (simp add: range_index_def)

lemma length_range_index: "length (range_index rows) = length rows"
  by (simp add: range_index_def)

lemma remdups_append_filter:
  "remdups (xs @ ys) = remdups (filter (\<lambda>x. x \<notin> set ys) xs) @ remdups ys"
  by (induction xs) auto

lemma kept_first_occurrences:
  "map fst (filter snd (zip xs (map Not (duplicated_from seen xs))))
     = rev (remdups (rev (filter (\<lambda>x. x \<notin> set seen) xs)))"
proof (induction xs arbitrary: seen)
  case Nil
  then show ?case by simp
next
  case (Cons x xs)
  have f: "filter (\<lambda>y. y \<notin> set (x # seen)) xs = filter (\<lambda>y. y \<noteq> x) (filter (\<lambda>y. y \<notin> set seen) xs)"
    by (induction xs) auto
  show ?case
  proof (cases "x \<in> set seen")
    case True
    then have "set (x # seen) = set seen" by auto
    then have "filter (\<lambda>y. y \<notin> set (x # seen)) xs = filter (\<lambda>y. y \<notin> set seen) xs" by simp
    with True Cons.IH[of "x # seen"] show ?thesis by simp
  next
    case False
    have "rev (remdups (rev (x # filter (\<lambda>y. y \<notin> set seen) xs)))
            = x # rev (remdups (rev (filter (\<lambda>y. y \<noteq> x) (filter (\<lambda>y. y \<notin> set seen) xs))))"
      by (simp add: remdups_append_filter rev_filter)
    with False Cons.IH[of "x # seen"] f show ?thesis by simp
  qed
qed

lemma kept_of_combined:
  assumes "distinct ds"
  shows "drop (length ds) (map fst (filter snd (zip (ds @ b) (map Not (duplicated (ds @ b))))))
           = rev (remdups (rev (filter (\<lambda>r. r \<notin> set ds) b)))"
proof -
  have "map fst (filter snd (zip (ds @ b) (map Not (duplicated (ds @ b)))))
          = rev (remdups (rev b @ rev ds))"
    by (simp add: duplicated_def kept_first_occurrences)
  also have "\<dots> = rev (remdups (filter (\<lambda>r. r \<notin> set ds) (rev b)) @ remdups (rev ds))"
    by (simp add: remdups_append_filter)
  also have "\<dots> = ds @ rev (remdups (rev (filter (\<lambda>r. r \<notin> set ds) b)))"
    using assms by (simp add: rev_filter distinct_remdups_id)
  finally show ?thesis by simp
qed

lemma drop_duplicates_rows:
  "map snd (map fst (filter (\<lambda>(lr, dup). \<not> dup) (zip df (duplicated_from seen (map snd df)))))
     = map fst (filter snd (zip (map snd df) (map Not (duplicated_from seen (map snd df)))))"
  by (induction df arbitrary: seen) auto

text \<open>The frame left by \<^verbatim>\<open>drop_duplicates\<close> has no two equal rows.\<close>

lemma drop_duplicates_distinct: "distinct (map snd (drop_duplicates df))"
proof -
  have "map snd (drop_duplicates df)
          = map snd (map fst (filter (\<lambda>(lr, dup). \<not> dup) (zip df (duplicated_from [] (map snd df)))))"
    by (simp only: drop_duplicates_def duplicated_def)
  also have "\<dots> = map fst (filter snd (zip (map snd df) (map Not (duplicated_from [] (map snd df)))))"
    by (rule drop_duplicates_rows)
  also have "\<dots> = rev (remdups (rev (filter (\<lambda>x. x \<notin> set []) (map snd df))))"
    by (rule kept_first_occurrences)
  finally show ?thesis by simp
qed

text \<open>
  The accumulated frame never holds two equal rows (\<open>drop_duplicates_distinct\<close> for the
  base batch, and the second part of this lemma for every later step). Merging a batch
  into such a frame keeps the frame's rows as they are, in their order, and appends the
  rows of the batch that equal no row of the frame and no earlier row of the batch, in the
  order of the batch: \<open>remdups\<close> keeps last occurrences, so between two reversals it keeps
  the first ones. Equality is that of the rows as the frames hold them, cell value by cell
  value.
\<close>

lemma merge_batch_keeps_first_occurrences:
  assumes "distinct (map snd merged_df)"
  shows "map snd (merge_batch merged_df batch_df)
           = map snd merged_df
             @ rev (remdups (rev (filter (\<lambda>r. r \<notin> set (map snd merged_df)) (map snd batch_df))))
         \<and> distinct (map snd (merge_batch merged_df batch_df))"
proof -
  let ?ds = "map snd merged_df" and ?b = "map snd batch_df"
  let ?new = "rev (remdups (rev (filter (\<lambda>r. r \<notin> set ?ds) ?b)))"
  have k: "drop (length merged_df)
             (map fst (filter snd (zip (?ds @ ?b) (map Not (duplicated (?ds @ ?b)))))) = ?new"
    using kept_of_combined[OF assms, of ?b] by simp
  have eq: "map snd (merge_batch merged_df batch_df) = ?ds @ ?new"
  proof (cases "?new = []")
    case True
    with k show ?thesis by (simp add: merge_batch_def Let_def del: length_0_conv)
  next
    case False
    then have "0 < length ?new" by simp
    with k show ?thesis
      by (simp only: merge_batch_def Let_def if_True map_snd_range_index)
  qed
  have "distinct (?ds @ ?new)" using assms by auto
  with eq show ?thesis by simp
qed

lemma merge_batch_keeps_first_occurrences_example:
  "distinct (map snd (range_index [''A'', ''B'']))
   \<and> map snd (merge_batch (range_index [''A'', ''B'']) (range_index [''B'', ''C''])) = [''A'', ''B'', ''C'']"
proof -
  have d: "distinct (map snd (range_index [''A'', ''B'']))"
    by (simp add: range_index_def)
  show ?thesis
    using d merge_batch_keeps_first_occurrences[OF d, of "range_index [''B'', ''C'']"]
    by (simp add: range_index_def)
qed

text \<open>
  C4. The comment of the merge step says \<^verbatim>\<open>Merge without duplicates\<close>, and the step does
  compare whole rows; but it compares them as the two frames hold them, and
  \<^verbatim>\<open>read_csv\<close> has typed the columns of each file on its own. The base file below has the
  lines A and B with \<^verbatim>\<open>0.4%\<close> and \<^verbatim>\<open>5\<close> in the column \<^verbatim>\<open>Actual\<close>, which is therefore a
  column of texts; the incremental file has the lines B and C with \<^verbatim>\<open>5\<close> and \<^verbatim>\<open>7\<close>
  there, which makes it a column of integers. The line B is the same in both files, every
  cell of it has the same text in both frames, and the run still keeps both copies: it
  writes A, B, B, C.
\<close>

theorem same_line_in_two_files_kept_twice:
  "map_sum id snd
     (main remdups to_datetime_d_B_Y
        (\<lambda>p. if p = (''main_batch'', ''base.csv'')
              then Inr [example_row (Str ''4 January 2021'') (Str ''4 - 10 Jan, 2021''),
                        (example_row (Str ''5 January 2021'') (Str ''4 - 10 Jan, 2021''))
                          \<lparr>Actual := Str ''5''\<rparr>]
              else Inr [(example_row (Str ''5 January 2021'') (Str ''4 - 10 Jan, 2021''))
                          \<lparr>Actual := IntV 5\<rparr>,
                        (example_row (Str ''6 January 2021'') (Str ''4 - 10 Jan, 2021''))
                          \<lparr>Actual := IntV 7\<rparr>])
        ''main_batch'' [''base.csv''] [(''February 2021 Batch'', [''feb.csv''])])
     = Inr [example_row (Str ''4 January 2021'') (Str ''4 - 10 Jan, 2021''),
            (example_row (Str ''5 January 2021'') (Str ''4 - 10 Jan, 2021''))\<lparr>Actual := Str ''5''\<rparr>,
            (example_row (Str ''5 January 2021'') (Str ''4 - 10 Jan, 2021''))\<lparr>Actual := IntV 5\<rparr>,
            (example_row (Str ''6 January 2021'') (Str ''4 - 10 Jan, 2021''))\<lparr>Actual := IntV 7\<rparr>]
   \<and> map cell_str (cells ((example_row (Str ''5 January 2021'') (Str ''4 - 10 Jan, 2021''))
                            \<lparr>Actual := Str ''5''\<rparr>))
     = map cell_str (cells ((example_row (Str ''5 January 2021'') (Str ''4 - 10 Jan, 2021''))
                            \<lparr>Actual := IntV 5\<rparr>))"
  by code_simp

section \<open>The run as a whole\<close>

lemma merge_monthly_failure:
  "p \<in> set files \<Longrightarrow> isl (load p) \<Longrightarrow> isl (merge_monthly so load merged_df latest files)"
proof (induction files arbitrary: merged_df latest)
  case Nil
  then show ?case by simp
next
  case (Cons f fs)
  show ?case
  proof (cases "process_batch so load merged_df f")
    case (Inl e)
    then show ?thesis by simp
  next
    case (Inr m)
    have "p \<noteq> f"
    proof
      assume "p = f"
      with Cons.prems(2) obtain e where "load f = Inl e" by (cases "load f") auto
      then have "process_batch so load merged_df f = Inl e" by (simp add: process_batch_def)
      with Inr show False by simp
    qed
    with Cons.prems have "p \<in> set fs" by simp
    with Cons.IH Cons.prems(2) Inr show ?thesis by simp
  qed
qed

lemma merge_monthly_latest:
  "merge_monthly so load merged_df latest files = Inr (m, l)
     \<Longrightarrow> l = (if files = [] then latest else Some (last files))"
proof (induction files arbitrary: merged_df latest)
  case Nil
  then show ?case by simp
next
  case (Cons f fs)
  then obtain m' where "process_batch so load merged_df f = Inr m'"
    and "merge_monthly so load m' (Some f) fs = Inr (m, l)"
    by (auto split: sum.splits)
  with Cons.IH[of m' "Some f"] show ?case by auto
qed

text \<open>
  C8, as the claim states it: the batch of April cannot be read, the batch of May can.
  The run ends with the exception of the April batch; the May batch is never reached.
\<close>

theorem unreadable_incremental_batch_ends_run:
  "main remdups to_datetime_d_B_Y
        (\<lambda>p. if p = (''April 2021 Batch'', ''apr.csv'') then Inl ReadError
              else Inr [example_row (Str ''5 January 2021'') (Str ''4 - 10 Jan, 2021'')])
        ''main_batch'' [''base.csv'']
        [(''April 2021 Batch'', [''apr.csv'']), (''May 2021 Batch'', [''may.csv''])]
     = Inl ReadError"
  by code_simp

text \<open>
  C8, amended: a run ends with an exception when the main folder holds no batch file, when
  the base batch cannot be read, and also when any one of the incremental batches cannot
  be read.
\<close>

theorem read_failure_aborts_run:
  "(filter (suffix ''.csv'') main_listing = []
      \<longrightarrow> main so to_datetime load main_batch_folder main_listing monthly_listing = Inl FileNotFoundError)
   \<and> (\<forall>main_csv others e.
         filter (suffix ''.csv'') main_listing = main_csv # others
         \<and> load (main_batch_folder, main_csv) = Inl e
      \<longrightarrow> main so to_datetime load main_batch_folder main_listing monthly_listing = Inl e)
   \<and> (\<forall>p \<in> set (monthly_csv_files monthly_listing).
         isl (load p)
      \<longrightarrow> isl (main so to_datetime load main_batch_folder main_listing monthly_listing))"
proof (intro conjI allI impI ballI)
  assume "filter (suffix ''.csv'') main_listing = []"
  then show "main so to_datetime load main_batch_folder main_listing monthly_listing = Inl FileNotFoundError"
    by (simp add: main_def)
next
  fix main_csv others e
  assume "filter (suffix ''.csv'') main_listing = main_csv # others
            \<and> load (main_batch_folder, main_csv) = Inl e"
  then show "main so to_datetime load main_batch_folder main_listing monthly_listing = Inl e"
    by (simp add: main_def)
next
  fix p
  assume p: "p \<in> set (monthly_csv_files monthly_listing)" and l: "isl (load p)"
  show "isl (main so to_datetime load main_batch_folder main_listing monthly_listing)"
  proof (cases "filter (suffix ''.csv'') main_listing")
    case Nil
    then show ?thesis by (simp add: main_def)
  next
    case (Cons main_csv others)
    show ?thesis
    proof (cases "load (main_batch_folder, main_csv)")
      case (Inl e)
      with Cons show ?thesis by (simp add: main_def)
    next
      case (Inr rows)
      show ?thesis
      proof (cases "detect_and_fix_broken_rows so (range_index rows)")
        case (Inl e)
        with Cons Inr show ?thesis by (simp add: main_def)
      next
        case df: (Inr df)
        from merge_monthly_failure[of p "monthly_csv_files monthly_listing" load so
                                      "drop_duplicates df" None] p l
        obtain e where "merge_monthly so load (drop_duplicates df) None
                          (monthly_csv_files monthly_listing) = Inl e"
          by (metis isl_def)
        with Cons Inr df show ?thesis by (simp add: main_def)
      qed
    qed
  qed
qed

theorem read_failure_aborts_run_witness:
  "main remdups to_datetime_d_B_Y (\<lambda>p. Inr []) ''main_batch'' [''readme.txt''] [] = Inl FileNotFoundError
   \<and> main remdups to_datetime_d_B_Y (\<lambda>p. Inl ReadError) ''main_batch'' [''base.csv''] [] = Inl ReadError
   \<and> isl (main remdups to_datetime_d_B_Y
             (\<lambda>p. if p = (''May 2021 Batch'', ''may.csv'') then Inl ReadError
                   else Inr [example_row (Str ''5 January 2021'') (Str ''4 - 10 Jan, 2021'')])
             ''main_batch'' [''base.csv'']
             [(''April 2021 Batch'', [''apr.csv'']), (''May 2021 Batch'', [''may.csv''])])"
proof -
  let ?load = "\<lambda>p::path. if p = (''May 2021 Batch'', ''may.csv'') then (Inl ReadError :: error + row list)
                   else Inr [example_row (Str ''5 January 2021'') (Str ''4 - 10 Jan, 2021'')]"
  let ?listing = "[(''April 2021 Batch'', [''apr.csv'']), (''May 2021 Batch'', [''may.csv''])]"
  have a: "filter (suffix ''.csv'') [''readme.txt''] = []"
    by (simp add: suffix_to_prefix)
  have b: "filter (suffix ''.csv'') [''base.csv''] = ''base.csv'' # []
           \<and> (\<lambda>p::path. Inl ReadError :: error + row list) (''main_batch'', ''base.csv'') = Inl ReadError"
    by (simp add: suffix_to_prefix)
  have c: "(''May 2021 Batch'', ''may.csv'') \<in> set (monthly_csv_files ?listing)"
    by (simp add: monthly_csv_files_def suffix_to_prefix)
  have d: "isl (?load (''May 2021 Batch'', ''may.csv''))" by simp
  note t1 = read_failure_aborts_run[where main_listing = "[''readme.txt'']" and so = remdups
              and to_datetime = to_datetime_d_B_Y and load = "\<lambda>p. Inr []"
              and main_batch_folder = "''main_batch''" and monthly_listing = "[]"]
  note t2 = read_failure_aborts_run[where main_listing = "[''base.csv'']" and so = remdups
              and to_datetime = to_datetime_d_B_Y and load = "\<lambda>p. Inl ReadError"
              and main_batch_folder = "''main_batch''" and monthly_listing = "[]"]
  note t3 = read_failure_aborts_run[where main_listing = "[''base.csv'']" and so = remdups
              and to_datetime = to_datetime_d_B_Y and load = ?load
              and main_batch_folder = "''main_batch''" and monthly_listing = ?listing]
  from t1 a have 1: "main remdups to_datetime_d_B_Y (\<lambda>p. Inr []) ''main_batch'' [''readme.txt''] []
                       = Inl FileNotFoundError" by blast
  from t2 b have 2: "main remdups to_datetime_d_B_Y (\<lambda>p. Inl ReadError) ''main_batch'' [''base.csv''] []
                       = Inl ReadError" by blast
  from t3 c d have 3: "isl (main remdups to_datetime_d_B_Y ?load ''main_batch'' [''base.csv''] ?listing)"
    by blast
  from 1 2 3 show ?thesis by blast
qed

text \<open>
  C5, as the claim states it: with the batches of February and March, processed in this
  order, the name would start with the first part of the February file's name. It starts
  with that of the March file, the batch processed last.
\<close>

theorem output_name_not_from_earliest_batch:
  "monthly_csv_files [(''March 2021 Batch'', [''from_Mar_2021_to_Mar_2021.csv'']),
                      (''February 2021 Batch'', [''from_Feb_2021_to_Feb_2021.csv''])]
     = [(''February 2021 Batch'', ''from_Feb_2021_to_Feb_2021.csv''),
        (''March 2021 Batch'', ''from_Mar_2021_to_Mar_2021.csv'')]
   \<and> map_sum id fst
        (main remdups to_datetime_d_B_Y
              (\<lambda>p. Inr [example_row (Str ''5 January 2021'') (Str ''4 - 10 Jan, 2021'')])
              ''main_batch'' [''from_Jan_2021_to_Jan_2007.csv'']
              [(''March 2021 Batch'', [''from_Mar_2021_to_Mar_2021.csv'']),
               (''February 2021 Batch'', [''from_Feb_2021_to_Feb_2021.csv''])])
     = Inr ''from_Mar_2021_to_Jan_2007.csv''"
  by code_simp

text \<open>
  C5, amended: the name of the file written is made of the first \<^verbatim>\<open>_to_\<close> part of the
  stem of the incremental batch processed last and of what follows the first \<^verbatim>\<open>_to_\<close>
  in the stem of the base batch, without the characters \<^verbatim>\<open><>:"/\|?*\<close>; without
  incremental batches it is the stem of the base batch without these characters. In both
  cases \<^verbatim>\<open>.csv\<close> is appended.
\<close>

theorem output_name_uses_last_batch:
  assumes "main so to_datetime load main_batch_folder main_listing monthly_listing = Inr (name, rows)"
  shows "\<exists>main_csv others.
           filter (suffix ''.csv'') main_listing = main_csv # others
           \<and> name = filter (\<lambda>c. c \<notin> set illegal_chars)
                       (if monthly_csv_files monthly_listing = [] then stem main_csv
                        else first_part (str_split ''_to_''
                                           (stem (snd (last (monthly_csv_files monthly_listing)))))
                             @ ''_to_'' @ str_join ''_to_'' (tl (str_split ''_to_'' (stem main_csv))))
                    @ ''.csv''"
proof (cases "filter (suffix ''.csv'') main_listing")
  case Nil
  with assms show ?thesis by (simp add: main_def)
next
  case (Cons main_csv others)
  with assms obtain df merged_df latest where
    m: "merge_monthly so load (drop_duplicates df) None (monthly_csv_files monthly_listing)
          = Inr (merged_df, latest)"
    and n: "name = merged_filename main_csv (map_option snd latest) @ ''.csv''"
    by (auto simp: main_def split: sum.splits)
  from merge_monthly_latest[OF m]
  have "latest = (if monthly_csv_files monthly_listing = [] then None
                  else Some (last (monthly_csv_files monthly_listing)))" .
  with n Cons show ?thesis by (auto simp: merged_filename_def Let_def)
qed

theorem output_name_uses_last_batch_witness:
  "(\<exists>main_csv others.
     filter (suffix ''.csv'') [''notes.txt'', ''from_Jan:2021_to_Jan_2007.csv''] = main_csv # others
     \<and> ''from_Jan2021_to_Jan_2007.csv''
         = filter (\<lambda>c. c \<notin> set illegal_chars)
             (if monthly_csv_files [] = [] then stem main_csv
              else first_part (str_split ''_to_'' (stem (snd (last (monthly_csv_files [])))))
                   @ ''_to_'' @ str_join ''_to_'' (tl (str_split ''_to_'' (stem main_csv))))
           @ ''.csv'')
   \<and> (\<exists>main_csv others.
     filter (suffix ''.csv'') [''notes.txt'', ''from_Jan_2021_to_Jan:2007.csv''] = main_csv # others
     \<and> ''from_May_2021_to_Jan2007.csv''
         = filter (\<lambda>c. c \<notin> set illegal_chars)
             (if monthly_csv_files
                   [(''May 2021 Batch'', [''from_May_2021_to_May_2021.csv'']),
                    (''April 2021 Batch'', [''from_Apr_2021_to_Apr_2021.csv''])] = []
              then stem main_csv
              else first_part (str_split ''_to_''
                     (stem (snd (last (monthly_csv_files
                        [(''May 2021 Batch'', [''from_May_2021_to_May_2021.csv'']),
                         (''April 2021 Batch'', [''from_Apr_2021_to_Apr_2021.csv''])])))))
                   @ ''_to_'' @ str_join ''_to_'' (tl (str_split ''_to_'' (stem main_csv))))
           @ ''.csv'')"
proof -
  have run: "main remdups to_datetime_d_B_Y
               (\<lambda>p. Inr [example_row (Str ''5 January 2021'') (Str ''4 - 10 Jan, 2021'')])
               ''main_batch'' [''notes.txt'', ''from_Jan:2021_to_Jan_2007.csv''] []
             = Inr (''from_Jan2021_to_Jan_2007.csv'',
                    [example_row (Str ''5 January 2021'') (Str ''4 - 10 Jan, 2021'')])"
    by code_simp
  have run2: "main remdups to_datetime_d_B_Y
               (\<lambda>p. Inr [example_row (Str ''5 January 2021'') (Str ''4 - 10 Jan, 2021'')])
               ''main_batch'' [''notes.txt'', ''from_Jan_2021_to_Jan:2007.csv'']
               [(''May 2021 Batch'', [''from_May_2021_to_May_2021.csv'']),
                (''April 2021 Batch'', [''from_Apr_2021_to_Apr_2021.csv''])]
             = Inr (''from_May_2021_to_Jan2007.csv'',
                    [example_row (Str ''5 January 2021'') (Str ''4 - 10 Jan, 2021'')])"
    by code_simp
  show ?thesis
    by (rule conjI) (rule output_name_uses_last_batch[OF run], rule output_name_uses_last_batch[OF run2])
qed

section \<open>Broken-date repair\<close>

lemma map_of_range_index:
  "i < length rows \<Longrightarrow> map_of (range_index rows) i = Some (rows ! i)"
  using map_of_zip_nth[of "[0 ..< length rows]" rows i] by (simp add: range_index_def)

lemma loc_Date_range_index:
  "i < length rows \<Longrightarrow> loc_Date (range_index rows) i = Inr (Date (rows ! i))"
  by (simp add: loc_Date_def map_of_range_index)

lemma nearby_years_range_index:
  "\<forall>i \<in> set is. i < length rows \<Longrightarrow>
   nearby_years (range_index rows) is
     = Inr (concat (map (\<lambda>i. case year_of (strip (cell_str (Date (rows ! i)))) of
                                None \<Rightarrow> [] | Some y \<Rightarrow> [y]) is))"
  by (induction "is") (auto simp: loc_Date_range_index)

lemma window_set:
  "set (window n p) = {i. i < n \<and> i \<noteq> p \<and> p \<le> i + 20 \<and> i \<le> p + 20}"
  by (auto simp: window_def search_range_def)

lemma window_sorted: "sorted (window n p)"
  by (simp add: window_def sorted_wrt_filter)

lemma max_by_split:
  "\<exists>pre post. b # xs = pre @ max_by k b xs # post
     \<and> (\<forall>z \<in> set pre. k z < k (max_by k b xs))
     \<and> (\<forall>z \<in> set post. k z \<le> k (max_by k b xs))"
proof (induction xs arbitrary: b)
  case Nil
  show ?case by (intro exI[of _ "[]"]) simp
next
  case (Cons x xs)
  define b' where "b' = (if k b < k x then x else b)"
  define m where "m = max_by k b' xs"
  from Cons[of b'] obtain pre post where
    s: "b' # xs = pre @ m # post"
    and lt: "\<forall>z \<in> set pre. k z < k m"
    and le: "\<forall>z \<in> set post. k z \<le> k m"
    unfolding m_def by blast
  have mm: "max_by k b (x # xs) = m" by (simp add: m_def b'_def)
  have b'_le: "k b' \<le> k m"
  proof (cases pre)
    case Nil
    with s have "b' = m" by simp
    then show ?thesis by simp
  next
    case (Cons c cs)
    with s have "b' \<in> set pre" by simp
    with lt show ?thesis by (simp add: less_imp_le)
  qed
  show ?case
  proof (cases "k b < k x")
    case True
    then have bx: "b' = x" by (simp add: b'_def)
    with s have "b # x # xs = (b # pre) @ m # post" by simp
    moreover from True b'_le bx have "k b < k m" by simp
    ultimately show ?thesis using lt le unfolding mm
      by (intro exI[of _ "b # pre"] exI[of _ post]) simp
  next
    case False
    then have bb: "b' = b" by (simp add: b'_def)
    show ?thesis
    proof (cases pre)
      case Nil
      with s bb have "m = b" "post = xs" by auto
      with False le show ?thesis unfolding mm
        by (intro exI[of _ "[]"] exI[of _ "x # xs"]) auto
    next
      case (Cons c cs)
      with s bb have c: "c = b" and r: "xs = cs @ m # post" by auto
      from lt Cons c have "k b < k m" by simp
      with False have "k x < k m" by simp
      with r lt le Cons c show ?thesis unfolding mm
        by (intro exI[of _ "b # x # cs"] exI[of _ post]) auto
    qed
  qed
qed

lemma most_common_split:
  assumes "set_order so" and "ys \<noteq> []"
  shows "\<exists>pre post. so ys = pre @ most_common so ys # post
           \<and> (\<forall>z \<in> set pre. count_list ys z < count_list ys (most_common so ys))
           \<and> (\<forall>z \<in> set post. count_list ys z \<le> count_list ys (most_common so ys))"
proof -
  from assms have "set (so ys) \<noteq> {}" by (simp add: set_order_def)
  then obtain x xs where x: "so ys = x # xs" by (cases "so ys") auto
  then have "most_common so ys = max_by (count_list ys) x xs" by (simp add: most_common_def)
  with max_by_split[of x xs "count_list ys"] x show ?thesis by simp
qed

lemma set_order_remdups: "set_order remdups"
  by (simp add: set_order_def)

text \<open>
  C7, as the claim states it: a row whose Date is missing is a row with a broken date, and
  its neighbour carries the year 2021. The repair finds no day and month in the value and
  returns it as it is, the text \<^verbatim>\<open>nan\<close>, not a date with the neighbour's year.
\<close>

theorem missing_date_not_rewritten:
  "is_broken_date (strip (cell_str (Date (example_row NaN (Str ''4 - 10 Jan, 2021'')))))
   \<and> fix_broken_date remdups
        (range_index [example_row NaN (Str ''4 - 10 Jan, 2021''),
                      example_row (Str ''5 January 2021'') (Str ''4 - 10 Jan, 2021'')]) 0
       = Inr ''nan''"
  by code_simp

text \<open>
  C7, amended. The frame carries the labels \<open>0, 1, 2, \<dots>\<close> and \<open>p\<close> is a position in it.
  The positions searched are those from \<open>p - 20\<close> to \<open>p + 20\<close> inside the frame, without
  \<open>p\<close>, in increasing order; \<open>ys\<close> are the years of the first 4-digit token of each Date
  there. When no day and month can be extracted from the Date at \<open>p\<close>, the Date returned
  is its stripped text. When they can, giving the text \<open>month_day\<close>: without a year in
  \<open>ys\<close> the Date returned is \<open>month_day\<close> with 2024; otherwise it is \<open>month_day\<close> with a
  year \<open>y\<close> that no other year of \<open>ys\<close> outnumbers, namely the first such year in the order
  in which the set of the years is iterated.
\<close>

theorem fix_broken_date_imputes_year:
  assumes "set_order so"
    and "p < length rows"
    and "ys = concat (map (\<lambda>i. case year_of (strip (cell_str (Date (rows ! i)))) of
                                   None \<Rightarrow> [] | Some y \<Rightarrow> [y])
                          (window (length rows) p))"
  shows "set (window (length rows) p) = {i. i < length rows \<and> i \<noteq> p \<and> p \<le> i + 20 \<and> i \<le> p + 20}
       \<and> sorted (window (length rows) p)
       \<and> (extract_month_day_from_broken_date (strip (cell_str (Date (rows ! p)))) = None \<longrightarrow>
            fix_broken_date so (range_index rows) p = Inr (strip (cell_str (Date (rows ! p)))))
       \<and> (\<forall>month_day.
            extract_month_day_from_broken_date (strip (cell_str (Date (rows ! p)))) = Some month_day \<longrightarrow>
              (ys = [] \<longrightarrow> fix_broken_date so (range_index rows) p = Inr (month_day @ '' 2024''))
            \<and> (ys \<noteq> [] \<longrightarrow>
                 (\<exists>y pre post.
                     fix_broken_date so (range_index rows) p = Inr (month_day @ '' '' @ show_int y)
                   \<and> so ys = pre @ y # post
                   \<and> (\<forall>z \<in> set pre. count_list ys z < count_list ys y)
                   \<and> (\<forall>z \<in> set post. count_list ys z \<le> count_list ys y))))"
proof -
  have w: "\<forall>i \<in> set (window (length rows) p). i < length rows"
    by (simp add: window_set)
  have n: "nearby_years (range_index rows) (window (length (range_index rows)) p) = Inr ys"
    using nearby_years_range_index[OF w] assms(3) by (simp add: range_index_def)
  have none: "extract_month_day_from_broken_date (strip (cell_str (Date (rows ! p)))) = None \<longrightarrow>
            fix_broken_date so (range_index rows) p = Inr (strip (cell_str (Date (rows ! p))))"
    using assms(2) by (simp add: fix_broken_date_def loc_Date_range_index)
  have some: "\<forall>month_day.
            extract_month_day_from_broken_date (strip (cell_str (Date (rows ! p)))) = Some month_day \<longrightarrow>
              (ys = [] \<longrightarrow> fix_broken_date so (range_index rows) p = Inr (month_day @ '' 2024''))
            \<and> (ys \<noteq> [] \<longrightarrow>
                 (\<exists>y pre post.
                     fix_broken_date so (range_index rows) p = Inr (month_day @ '' '' @ show_int y)
                   \<and> so ys = pre @ y # post
                   \<and> (\<forall>z \<in> set pre. count_list ys z < count_list ys y)
                   \<and> (\<forall>z \<in> set post. count_list ys z \<le> count_list ys y)))"
  proof (intro allI impI conjI)
    fix month_day
    assume e: "extract_month_day_from_broken_date (strip (cell_str (Date (rows ! p)))) = Some month_day"
    have f: "fix_broken_date so (range_index rows) p
             = (if ys \<noteq> [] then Inr (month_day @ '' '' @ show_int (most_common so ys))
                else Inr (month_day @ '' '' @ show_int fallback_year))"
      using assms(2) e n by (simp add: fix_broken_date_def loc_Date_range_index)
    have y24: "show_int fallback_year = ''2024''"
      by code_simp
    {
      assume "ys = []"
      with f y24 show "fix_broken_date so (range_index rows) p = Inr (month_day @ '' 2024'')"
        by simp
    }
    {
      assume ne: "ys \<noteq> []"
      from most_common_split[OF assms(1) ne] obtain pre post where
        "so ys = pre @ most_common so ys # post"
        "\<forall>z \<in> set pre. count_list ys z < count_list ys (most_common so ys)"
        "\<forall>z \<in> set post. count_list ys z \<le> count_list ys (most_common so ys)"
        by blast
      with f ne show "\<exists>y pre post.
                fix_broken_date so (range_index rows) p = Inr (month_day @ '' '' @ show_int y)
              \<and> so ys = pre @ y # post
              \<and> (\<forall>z \<in> set pre. count_list ys z < count_list ys y)
              \<and> (\<forall>z \<in> set post. count_list ys z \<le> count_list ys y)"
        by (intro exI[of _ "most_common so ys"] exI[of _ pre] exI[of _ post]) simp
    }
  qed
  show ?thesis
    by (intro conjI) (rule window_set, rule window_sorted, rule none, rule some)
qed

theorem fix_broken_date_imputes_year_witness:
  "fix_broken_date remdups
     (range_index [example_row (Str ''5 January'') NaN,
                   example_row (Str ''5 January 2021'') NaN,
                   example_row (Str ''6 January 2021'') NaN]) 0
   = Inr ''5 January 2021''
   \<and> fix_broken_date remdups
       (range_index [example_row (Str '' Holiday '') NaN,
                     example_row (Str ''5 January 2021'') NaN]) 0
     = Inr ''Holiday''"
proof -
  let ?rows = "[example_row (Str ''5 January'') NaN,
                example_row (Str ''5 January 2021'') NaN,
                example_row (Str ''6 January 2021'') NaN]"
  have p: "0 < length ?rows" by simp
  have e: "extract_month_day_from_broken_date (strip (cell_str (Date (?rows ! 0)))) = Some ''5 January''"
    by code_simp
  have y: "[2021, 2021] = concat (map (\<lambda>i. case year_of (strip (cell_str (Date (?rows ! i)))) of
                                   None \<Rightarrow> [] | Some y \<Rightarrow> [y])
                          (window (length ?rows) 0))"
    by code_simp
  from fix_broken_date_imputes_year[OF set_order_remdups p y] e
  obtain y pre post where
    f: "fix_broken_date remdups (range_index ?rows) 0 = Inr (''5 January'' @ '' '' @ show_int y)"
    and s: "remdups [2021, 2021::int] = pre @ y # post"
    by auto
  from s have "y = 2021" by (cases pre) auto
  moreover have "show_int 2021 = ''2021''" by code_simp
  ultimately have first: "fix_broken_date remdups (range_index ?rows) 0 = Inr ''5 January 2021''"
    using f by simp
  let ?rows2 = "[example_row (Str '' Holiday '') NaN, example_row (Str ''5 January 2021'') NaN]"
  have p2: "0 < length ?rows2" by simp
  have e2: "extract_month_day_from_broken_date (strip (cell_str (Date (?rows2 ! 0)))) = None"
    by code_simp
  have s2: "strip (cell_str (Date (?rows2 ! 0))) = ''Holiday''"
    by code_simp
  from fix_broken_date_imputes_year[OF set_order_remdups p2 refl] e2
  have "fix_broken_date remdups (range_index ?rows2) 0 = Inr (strip (cell_str (Date (?rows2 ! 0))))"
    by blast
  then have second: "fix_broken_date remdups (range_index ?rows2) 0 = Inr ''Holiday''"
    by (simp only: s2)
  show ?thesis
    by (rule conjI) (rule first, rule second)
qed

section \<open>Running the repair twice\<close>

lemma digit_char_in_digits: "d < 10 \<Longrightarrow> digit_char d \<in> set ''0123456789''"
  unfolding digit_char_def by (rule nth_mem) simp

lemma set_show_digits: "set (show_digits n) \<subseteq> set ''0123456789''"
proof (induction n rule: show_digits.induct)
  case (1 n)
  show ?case
  proof (cases "n < 10")
    case True
    then have "show_digits n = [digit_char n]" by (simp add: show_digits.simps)
    with digit_char_in_digits[OF True] show ?thesis by simp
  next
    case False
    then have s: "show_digits n = show_digits (n div 10) @ [digit_char (n mod 10)]"
      by (subst show_digits.simps) simp
    have "n mod 10 < 10" by simp
    from digit_char_in_digits[OF this] "1.IH"[OF False] show ?thesis
      unfolding s by simp
  qed
qed

lemma set_show_int: "set (show_int n) \<subseteq> insert CHR ''-'' (set ''0123456789'')"
proof (cases "n < 0")
  case True
  then have "set (show_int n) = insert CHR ''-'' (set (show_digits (- n)))"
    by (simp add: show_int_def)
  also have "\<dots> \<subseteq> insert CHR ''-'' (set ''0123456789'')"
    by (rule insert_mono) (rule set_show_digits)
  finally show ?thesis .
next
  case False
  then have "set (show_int n) = set (show_digits n)" by (simp add: show_int_def)
  also have "\<dots> \<subseteq> set ''0123456789''" by (rule set_show_digits)
  also have "\<dots> \<subseteq> insert CHR ''-'' (set ''0123456789'')" by (rule subset_insertI)
  finally show ?thesis .
qed

lemma show_int_chars:
  assumes "c \<notin> insert CHR ''-'' (set ''0123456789'')"
  shows "c \<notin> set (show_int n)"
  using assms set_show_int[of n] by (meson subsetD)









section \<open>Matches of the regular expressions\<close>

text \<open>
  What a match tells about the text: every end position offered by a repetition lies after
  characters of its class only, and a successful match or search fixes one end position
  per atom.
\<close>

lemma rep_ends_sound:
  assumes "e \<in> set (rep_ends c lo hi s i)"
  shows "i + lo \<le> e" and "i \<le> length s \<Longrightarrow> e \<le> length s" and "\<And>j. i \<le> j \<Longrightarrow> j < e \<Longrightarrow> in_cls c (s ! j)"
    and "\<And>h. hi = Some h \<Longrightarrow> e \<le> i + h"
proof -
  define run where "run = length (takeWhile (in_cls c) (drop i s))"
  define n where "n = (case hi of None \<Rightarrow> run | Some h \<Rightarrow> min h run)"
  have "rep_ends c lo hi s i = map (\<lambda>k. i + k) (rev [lo ..< Suc n])"
    by (simp only: rep_ends_def Let_def n_def run_def)
  then have "set (rep_ends c lo hi s i) = (\<lambda>k. i + k) ` set [lo ..< Suc n]"
    by (simp only: set_map set_rev)
  with assms obtain k where "e = i + k" and "k \<in> set [lo ..< Suc n]"
    by blast
  then have k: "e = i + k" "lo \<le> k" "k \<le> n"
    by auto
  have nr: "n \<le> run" by (cases hi) (simp_all add: n_def)
  have rl: "run \<le> length (drop i s)" unfolding run_def by (rule length_takeWhile_le)
  show "i + lo \<le> e" using k by simp
  show "e \<le> length s" if "i \<le> length s"
    using that k nr rl by auto
  show "in_cls c (s ! j)" if "i \<le> j" "j < e" for j
  proof -
    from that k nr have l: "j - i < run" by simp
    then have "takeWhile (in_cls c) (drop i s) ! (j - i) \<in> set (takeWhile (in_cls c) (drop i s))"
      unfolding run_def by (rule nth_mem)
    then have "in_cls c (takeWhile (in_cls c) (drop i s) ! (j - i))"
      by (rule set_takeWhileD[THEN conjunct2])
    moreover have "takeWhile (in_cls c) (drop i s) ! (j - i) = drop i s ! (j - i)"
      using l unfolding run_def by (rule takeWhile_nth)
    moreover have "drop i s ! (j - i) = s ! j"
      using that l rl by simp
    ultimately show ?thesis by simp
  qed
  show "e \<le> i + h" if "hi = Some h" for h
    using that k by (simp add: n_def)
qed

lemma try_ends_sound:
  "try_ends as s js = Some es \<Longrightarrow>
   \<exists>j es'. es = j # es' \<and> j \<in> set js \<and> match_at as s j = Some es'"
  by (induction js) (auto split: option.splits)

lemma match_at_Cons_sound:
  assumes "match_at (a # as) s i = Some es"
  obtains e es' where "es = e # es'" and "e \<in> set (atom_ends a s i)" and "match_at as s e = Some es'"
  using assms try_ends_sound[of as s "atom_ends a s i" es] by auto

lemma search_from_sound:
  "search_from rx s is = Some (i, es) \<Longrightarrow> i \<in> set is \<and> match_at rx s i = Some es"
  by (induction "is") (auto split: option.splits)

lemma re_search_sound:
  "re_search rx s = Some (i, es) \<Longrightarrow> i \<le> length s \<and> match_at rx s i = Some es"
  using search_from_sound[of rx s "[0 ..< Suc (length s)]" i es] by (auto simp: re_search_def)

lemma search_from_complete:
  "i \<in> set is \<Longrightarrow> match_at rx s i \<noteq> None \<Longrightarrow> search_from rx s is \<noteq> None"
  by (induction "is") (auto split: option.splits)

lemma re_search_complete:
  "i \<le> length s \<Longrightarrow> match_at rx s i \<noteq> None \<Longrightarrow> re_search rx s \<noteq> None"
  unfolding re_search_def by (rule search_from_complete) auto

section \<open>Boundary-Year Corrector\<close>

lemma split_from_without_separator:
  "\<not> contains sep s \<Longrightarrow> split_from sep cur s = [cur @ s]"
  by (induction s arbitrary: cur) auto

lemma two_parts_contain_separator:
  assumes "str_split sep s = [a, b]"
  shows "contains sep s" and "s \<noteq> []"
proof -
  show "contains sep s"
  proof (rule ccontr)
    assume "\<not> contains sep s"
    then have "str_split sep s = [s]"
      using split_from_without_separator[of sep s "[]"] by (simp add: str_split_def)
    with assms show False by simp
  qed
  show "s \<noteq> []" using assms by (auto simp: str_split_def)
qed

lemma strftime_december:
  "month d = 12 \<Longrightarrow>
   strftime_d_B_Y (d\<lparr>year := y\<rparr>) = strf_d (day d) @ '' December '' @ show_int y"
  by (simp add: strftime_d_B_Y_def strf_B_def strf_Y_def month_names_def)

lemma fix_december_row_applies:
  assumes "str_split '' - '' (strip (cell_str (WeekRange r))) = [a, b]"
    and "year_at_end (strip a) = Some start_year"
    and "year_at_end (strip b) = Some end_year"
    and "start_year < end_year"
    and "to_datetime (strip (cell_str (Date r))) = Some d"
    and "month d = 12" and "year d = end_year"
    and "replace_year_ok start_year"
  shows "fix_december_row to_datetime r
           = r\<lparr>Date := Str (strf_d (day d) @ '' December '' @ show_int start_year)\<rparr>"
proof -
  note c = two_parts_contain_separator[OF assms(1)]
  show ?thesis
    using assms c by (simp add: fix_december_row_def Let_def strftime_december)
qed

lemma fix_december_row_changed:
  assumes "fix_december_row to_datetime r \<noteq> r"
  shows "\<exists>a b start_year end_year d.
           str_split '' - '' (strip (cell_str (WeekRange r))) = [a, b]
         \<and> year_at_end (strip a) = Some start_year
         \<and> year_at_end (strip b) = Some end_year
         \<and> start_year < end_year
         \<and> to_datetime (strip (cell_str (Date r))) = Some d
         \<and> month d = 12 \<and> year d = end_year"
proof -
  let ?parts = "str_split '' - '' (strip (cell_str (WeekRange r)))"
  from assms have len: "length ?parts = 2"
    by (auto simp: fix_december_row_def Let_def split: if_splits)
  then obtain a b where ab: "?parts = [a, b]"
    by (cases ?parts) (auto simp: length_Suc_conv)
  from assms ab obtain sy ey where y: "year_at_end (strip a) = Some sy" "year_at_end (strip b) = Some ey"
    by (auto simp: fix_december_row_def Let_def split: if_splits option.splits)
  from assms ab y have lt: "sy < ey"
    by (auto simp: fix_december_row_def Let_def split: if_splits option.splits)
  from assms ab y lt obtain d where d: "to_datetime (strip (cell_str (Date r))) = Some d"
    by (auto simp: fix_december_row_def Let_def split: if_splits option.splits)
  from assms ab y lt d have "month d = 12 \<and> year d = ey"
    by (auto simp: fix_december_row_def Let_def split: if_splits option.splits)
  with ab y lt d show ?thesis by blast
qed

lemma rep_ends_no_member:
  assumes "\<forall>c \<in> set s. \<not> in_cls k c" and "0 < lo"
  shows "rep_ends k lo hi s i = []"
proof -
  have "takeWhile (in_cls k) (drop i s) = []"
  proof (cases "drop i s")
    case Nil
    then show ?thesis by simp
  next
    case (Cons a list)
    then have "a \<in> set (drop i s)" by simp
    then have "a \<in> set s" by (rule in_set_dropD)
    with assms(1) have "\<not> in_cls k a" by blast
    with Cons show ?thesis by simp
  qed
  then show ?thesis using assms(2) by (cases hi) (simp_all add: rep_ends_def)
qed

lemma search_from_none:
  "\<forall>i \<in> set is. match_at rx s i = None \<Longrightarrow> search_from rx s is = None"
  by (induction "is") auto

lemma year_at_end_without_comma:
  assumes "CHR '','' \<notin> set s"
  shows "year_at_end s = None"
proof -
  have nc: "\<forall>c \<in> set s. \<not> in_cls Comma c" using assms by auto
  have e: "rep_ends Comma 1 (Some 1) s i = []" for i
    using nc by (rule rep_ends_no_member) simp
  have m: "match_at year_at_end_rx s i = None" for i
    unfolding year_at_end_rx_def by (simp only: match_at.simps atom_ends.simps e try_ends.simps)
  have "search_from year_at_end_rx s is = None" for "is"
    by (rule search_from_none) (simp only: m ball_triv simp_thms)
  then have "re_search year_at_end_rx s = None"
    by (simp only: re_search_def)
  then show ?thesis by (simp only: year_at_end_def option.case)
qed

lemma set_strip_with: "set (strip_with P s) \<subseteq> set s"
proof -
  have "set (dropWhile P (rev (dropWhile P s))) \<subseteq> set (rev (dropWhile P s))"
    by (rule set_dropWhileD[THEN subsetI])
  also have "\<dots> \<subseteq> set s" by (auto dest: set_dropWhileD)
  finally show ?thesis by (simp add: strip_with_def)
qed

lemma set_strip: "set (strip s) \<subseteq> set s"
  by (simp add: strip_def set_strip_with)

text \<open>The first part of a split is a prefix of any text that is followed by the separator.\<close>

lemma first_part_prefix:
  "sep \<noteq> [] \<Longrightarrow>
   \<exists>x' rest. split_from sep cur (x @ sep @ y) = (cur @ x') # rest \<and> prefix x' x"
proof (induction x arbitrary: cur)
  case Nil
  then obtain c cs where cs: "sep @ y = c # cs" by (cases sep) auto
  have "prefix sep (c # cs)" unfolding cs[symmetric] by simp
  with Nil have "split_from sep cur (c # cs) = cur # split_from sep [] (drop (length sep) (c # cs))"
    by simp
  then show ?case unfolding append_Nil cs
    by (intro exI[of _ "[]"] exI[of _ "split_from sep [] (drop (length sep) (c # cs))"]) simp
next
  case (Cons c x)
  show ?case
  proof (cases "prefix sep (c # x @ sep @ y)")
    case True
    with Cons.prems
    have "split_from sep cur (c # x @ sep @ y)
            = cur # split_from sep [] (drop (length sep) (c # x @ sep @ y))"
      by simp
    then show ?thesis
      by (intro exI[of _ "[]"] exI[of _ "split_from sep [] (drop (length sep) (c # x @ sep @ y))"])
         simp
  next
    case False
    from Cons.IH[OF Cons.prems, of "cur @ [c]"] obtain x' rest where
      i: "split_from sep (cur @ [c]) (x @ sep @ y) = (cur @ [c] @ x') # rest" and p: "prefix x' x"
      by auto
    from False have "split_from sep cur (c # x @ sep @ y) = split_from sep (cur @ [c]) (x @ sep @ y)"
      by simp
    with i p show ?thesis by (intro exI[of _ "c # x'"] exI[of _ rest]) simp
  qed
qed

lemma first_part_chars:
  assumes "str_split sep (x @ sep @ y) = a # rest" and "sep \<noteq> []"
  shows "set a \<subseteq> set x"
proof -
  from first_part_prefix[OF assms(2), of "[]" x y] obtain x' rest' where
    "split_from sep [] (x @ sep @ y) = x' # rest'" "prefix x' x" by auto
  with assms(1) have "a = x'" by (simp add: str_split_def)
  with \<open>prefix x' x\<close> show ?thesis by (auto simp: prefix_def)
qed

text \<open>A WeekRange whose text before a \<^verbatim>\<open>' - '\<close> holds no comma is skipped.\<close>

lemma fix_december_row_skips:
  assumes "strip (cell_str (WeekRange r)) = x @ '' - '' @ y" and "CHR '','' \<notin> set x"
  shows "fix_december_row to_datetime r = r"
proof (rule ccontr)
  assume "fix_december_row to_datetime r \<noteq> r"
  from fix_december_row_changed[OF this] obtain a b sy where
    ab: "str_split '' - '' (strip (cell_str (WeekRange r))) = [a, b]"
    and y: "year_at_end (strip a) = Some sy" by blast
  from ab assms(1) have "set a \<subseteq> set x"
    using first_part_chars[of "'' - ''" x y a "[b]"] by simp
  with assms(2) set_strip[of a] have "CHR '','' \<notin> set (strip a)" by auto
  from year_at_end_without_comma[OF this] y show False by simp
qed

lemma month_of_day_number:
  assumes "0 \<le> k" and "k < 365" and "m0 = (k + 50) div 32"
  shows "1 \<le> (if DAYS_BEFORE_MONTH ! nat m0 + (if m0 > 2 \<and> b then 1 else 0) > k then m0 - 1 else m0)
       \<and> (if DAYS_BEFORE_MONTH ! nat m0 + (if m0 > 2 \<and> b then 1 else 0) > k then m0 - 1 else m0) \<le> 12"
proof -
  have m0: "1 \<le> m0" "m0 \<le> 12" using assms by simp_all
  show ?thesis
  proof (cases "m0 = 1")
    case True
    then have "DAYS_BEFORE_MONTH ! nat m0 + (if m0 > 2 \<and> b then 1 else 0) = 0"
      by (simp add: DAYS_BEFORE_MONTH_def)
    with assms(1) True show ?thesis by simp
  next
    case False
    with m0 have "2 \<le> m0" by simp
    with m0 show ?thesis by simp
  qed
qed

lemma month_of_either:
  assumes "1 \<le> m \<and> m \<le> 12"
  shows "1 \<le> month (if c then \<lparr>year = y1, month = 12, day = d1\<rparr>
                       else \<lparr>year = y2, month = m, day = d2\<rparr>)
       \<and> month (if c then \<lparr>year = y1, month = 12, day = d1\<rparr>
                  else \<lparr>year = y2, month = m, day = d2\<rparr>) \<le> 12"
  using assms by (cases c) simp_all

lemma ord2ymd_month: "1 \<le> month (ord2ymd n) \<and> month (ord2ymd n) \<le> 12"
proof -
  let ?k = "(n - 1) mod 146097 mod 36524 mod 1461 mod 365"
  have k: "0 \<le> ?k" "?k < 365" by simp_all
  note h = month_of_day_number[OF k refl]
  show ?thesis
    unfolding ord2ymd_def Let_def by (rule month_of_either) (rule h)
qed

lemma strf_b_chars:
  assumes "1 \<le> m" and "m \<le> 12"
  shows "CHR '','' \<notin> set (strf_b m)"
proof -
  have "nat (m - 1) < length month_abbrs" using assms by (simp add: month_abbrs_def)
  then have "strf_b m \<in> set month_abbrs" unfolding strf_b_def by (rule nth_mem)
  then show ?thesis by (auto simp: month_abbrs_def)
qed

lemma show_int_no_comma: "CHR '','' \<notin> set (show_int n)"
  by (rule show_int_chars) simp

lemma strf_d_chars: "CHR '','' \<notin> set (strf_d d)"
  using show_int_no_comma[of d] by (simp add: strf_d_def)

lemma format_week_shape:
  assumes "1 \<le> month week_start" and "month week_start \<le> 12"
  shows "\<exists>x y. format_week week_start week_end = x @ '' - '' @ y \<and> CHR '','' \<notin> set x"
proof (cases "month week_start = month week_end")
  case True
  have "CHR '','' \<notin> set (show_int (day week_start))"
    by (rule show_int_no_comma)
  with True show ?thesis
    by (intro exI[of _ "show_int (day week_start)"]
              exI[of _ "show_int (day week_end) @ '' '' @ strf_b (month week_end) @ '', ''
                        @ strf_Y (year week_end)"])
       (simp add: format_week_def)
next
  case False
  have "CHR '','' \<notin> set (strf_d (day week_start) @ '' '' @ strf_b (month week_start))"
    using strf_d_chars strf_b_chars[OF assms] by simp
  with False show ?thesis
    by (intro exI[of _ "strf_d (day week_start) @ '' '' @ strf_b (month week_start)"]
              exI[of _ "strf_d (day week_end) @ '' '' @ strf_b (month week_end) @ '', ''
                        @ strf_Y (year week_end)"])
       (simp add: format_week_def)
qed

lemma generated_weekrange_shape:
  "generate_weekrange_from_date c = []
   \<or> (\<exists>x y. generate_weekrange_from_date c = x @ '' - '' @ y \<and> CHR '','' \<notin> set x)"
proof (cases "generate_weekrange_from_date c = []")
  case True
  then show ?thesis by simp
next
  case False
  then obtain ws we where "generate_weekrange_from_date c = format_week (ord2ymd ws) we"
    by (auto simp: generate_weekrange_from_date_def Let_def split: option.splits if_splits)
  with format_week_shape[of "ord2ymd ws" we] ord2ymd_month[of ws] show ?thesis by simp
qed

lemma strip_empty: "strip [] = []"
  by (simp add: strip_def strip_with_def)

lemma fix_december_row_empty_weekrange:
  "strip (cell_str (WeekRange r)) = [] \<Longrightarrow> fix_december_row to_datetime r = r"
  by (simp add: fix_december_row_def)

text \<open>What the generator writes starts and ends with a digit, so stripping leaves it as it is.\<close>

lemma strip_with_id:
  "s \<noteq> [] \<Longrightarrow> \<not> P (hd s) \<Longrightarrow> \<not> P (last s) \<Longrightarrow> strip_with P s = s"
proof -
  assume ne: "s \<noteq> []" and h: "\<not> P (hd s)" and l: "\<not> P (last s)"
  from ne h have 1: "dropWhile P s = s" by (cases s) auto
  from ne l have 2: "dropWhile P (rev s) = rev s" by (cases "rev s") (auto simp: last_rev[symmetric] hd_rev)
  show ?thesis by (simp add: strip_with_def 1 2)
qed

lemma strip_with_last:
  assumes "strip_with P x \<noteq> []"
  shows "\<not> P (last (strip_with P x))"
proof -
  let ?ys = "dropWhile P (rev (dropWhile P x))"
  from assms have ne: "?ys \<noteq> []" by (simp add: strip_with_def)
  then have "\<not> P (hd ?ys)" by (rule hd_dropWhile)
  moreover have "last (strip_with P x) = hd ?ys"
    using ne by (simp add: strip_with_def last_rev)
  ultimately show ?thesis by simp
qed

lemma strip_no_final_newline: "strip x = [] \<or> last (strip x) \<noteq> CHR 0x0A"
proof (cases "strip x = []")
  case True
  then show ?thesis by simp
next
  case False
  then have "\<not> is_space (last (strip x))"
    unfolding strip_def by (rule strip_with_last)
  moreover have "is_space (CHR 0x0A)" by (simp add: is_space_def)
  ultimately show ?thesis by auto
qed

lemma span_members:
  assumes "b \<le> length s" and "\<And>j. a \<le> j \<Longrightarrow> j < b \<Longrightarrow> P (s ! j)"
  shows "\<forall>c \<in> set (take (b - a) (drop a s)). P c"
proof
  fix c
  assume "c \<in> set (take (b - a) (drop a s))"
  then obtain k where k: "k < length (take (b - a) (drop a s))" "c = take (b - a) (drop a s) ! k"
    by (auto simp: in_set_conv_nth)
  then have "k < b - a" by simp
  with k assms(1) have "c = s ! (a + k)" by simp
  with assms(2)[of "a + k"] \<open>k < b - a\<close> show "P c" by simp
qed

text \<open>What a text matched by \<^verbatim>\<open>,\s*(\d{4})$\<close> looks like.\<close>

lemma year_at_end_shape:
  assumes "year_at_end s = Some y" and "s = [] \<or> last s \<noteq> CHR 0x0A"
  shows "\<exists>pre ws ds. s = pre @ '','' @ ws @ ds \<and> (\<forall>c \<in> set ws. is_space c)
           \<and> length ds = 4 \<and> (\<forall>c \<in> set ds. is_digit c) \<and> y = int_of_digits ds"
proof -
  from assms(1) obtain i es where
    r: "re_search year_at_end_rx s = Some (i, es)" and y: "y = int_of_digits (span s (es ! 1) (es ! 2))"
    by (auto simp: year_at_end_def split: option.splits)
  from re_search_sound[OF r] have i: "i \<le> length s"
    and m: "match_at [Rep Comma 1 (Some 1), Rep Space 0 None, Rep Digit 4 (Some 4), Eol] s i = Some es"
    by (simp_all add: year_at_end_rx_def)
  from m obtain e1 es1 where es: "es = e1 # es1"
    and e1: "e1 \<in> set (rep_ends Comma 1 (Some 1) s i)"
    and m1: "match_at [Rep Space 0 None, Rep Digit 4 (Some 4), Eol] s e1 = Some es1"
    by (rule match_at_Cons_sound) simp
  from m1 obtain e2 es2 where es1: "es1 = e2 # es2"
    and e2: "e2 \<in> set (rep_ends Space 0 None s e1)"
    and m2: "match_at [Rep Digit 4 (Some 4), Eol] s e2 = Some es2"
    by (rule match_at_Cons_sound) simp
  from m2 obtain e3 es3 where es2: "es2 = e3 # es3"
    and e3: "e3 \<in> set (rep_ends Digit 4 (Some 4) s e2)"
    and m3: "match_at [Eol] s e3 = Some es3"
    by (rule match_at_Cons_sound) simp
  from m3 obtain e4 es4 where "es3 = e4 # es4" and e4: "e4 \<in> set (atom_ends Eol s e3)"
    by (rule match_at_Cons_sound)
  note c = rep_ends_sound[OF e1]
  note w = rep_ends_sound[OF e2]
  note d = rep_ends_sound[OF e3]
  from c(1) c(4)[OF refl] have e1i: "e1 = Suc i" by simp
  from c(2)[OF i] have l1: "e1 \<le> length s" .
  from c(3)[of i] e1i have comma: "s ! i = CHR '',''" by simp
  from w(1) have e12: "e1 \<le> e2" by simp
  from w(2)[OF l1] have l2: "e2 \<le> length s" .
  from d(1) d(4)[OF refl] have e23: "e3 = e2 + 4" by simp
  from d(2)[OF l2] have l3: "e3 \<le> length s" .
  have fin: "e3 = length s"
  proof (rule ccontr)
    assume n: "e3 \<noteq> length s"
    with e4 have "Suc e3 = length s \<and> s ! e3 = CHR 0x0A" by (simp split: if_splits)
    then have l: "length s = Suc e3" and nl: "s ! e3 = CHR 0x0A" by simp_all
    from l have ne: "s \<noteq> []" by auto
    from ne have "last s = s ! (length s - 1)" by (rule last_conv_nth)
    with l nl have "last s = CHR 0x0A" by simp
    with assms(2) ne show False by simp
  qed
  let ?pre = "take i s" and ?ws = "take (e2 - e1) (drop e1 s)" and ?ds = "drop e2 s"
  have il: "i < length s" using l1 e1i by simp
  have "s = take i s @ drop i s" by simp
  also have "drop i s = s ! i # drop e1 s"
    using il unfolding e1i by (rule Cons_nth_drop_Suc[symmetric])
  also have "drop e1 s = ?ws @ drop (e2 - e1) (drop e1 s)"
    by (rule append_take_drop_id[symmetric])
  also have "drop (e2 - e1) (drop e1 s) = ?ds" using e12 by simp
  finally have s: "s = ?pre @ '','' @ ?ws @ ?ds" using comma by simp
  have sp: "is_space (s ! j)" if "e1 \<le> j" "j < e2" for j
    using w(3)[OF that] by simp
  have ws: "\<forall>c \<in> set ?ws. is_space c"
    using l2 sp by (rule span_members)
  have dg: "is_digit (s ! j)" if "e2 \<le> j" "j < length s" for j
    using d(3)[of j] that fin by simp
  have "\<forall>c \<in> set (take (length s - e2) (drop e2 s)). is_digit c"
    using le_refl dg by (rule span_members)
  then have ds: "\<forall>c \<in> set ?ds. is_digit c" by simp
  have len: "length ?ds = 4" using e23 fin by simp
  have "span s (es ! 1) (es ! 2) = ?ds"
    using es es1 es2 e23 fin by (simp add: span_def)
  with y have "y = int_of_digits ?ds" by simp
  with s ws ds len show ?thesis by blast
qed


lemma digit_not_space: "is_digit c \<Longrightarrow> \<not> is_space c"
  by (auto simp: is_digit_def is_space_def)

lemma try_ends_first:
  "match_at as s j = Some es \<Longrightarrow> try_ends as s (j # js) = Some (j # es)"
  by simp

text \<open>A repetition takes as much as it can when the rest of the pattern matches after that.\<close>

lemma match_at_Rep_greedy:
  assumes "n = (case hi of None \<Rightarrow> length (takeWhile (in_cls c) (drop i s))
                | Some h \<Rightarrow> min h (length (takeWhile (in_cls c) (drop i s))))"
    and "lo \<le> n"
    and "match_at as s (i + n) = Some es"
  shows "match_at (Rep c lo hi # as) s i = Some ((i + n) # es)"
proof -
  have "rev [lo ..< Suc n] = n # rev [lo ..< n]" using assms(2) by simp
  then have "rep_ends c lo hi s i = (i + n) # map (\<lambda>k. i + k) (rev [lo ..< n])"
    unfolding rep_ends_def Let_def assms(1)[symmetric] by simp
  then show ?thesis using assms(3) by simp
qed

lemma year_at_end_complete:
  assumes "s = pre @ '','' @ ws @ ds" and "\<forall>c \<in> set ws. is_space c"
    and "length ds = 4" and "\<forall>c \<in> set ds. is_digit c"
  shows "year_at_end s = Some (int_of_digits ds)"
proof -
  let ?i = "length pre"
  define e1 where "e1 = ?i + 1"
  define e2 where "e2 = e1 + length ws"
  from assms(3) obtain d ds' where ds: "ds = d # ds'" by (cases ds) auto
  with assms(4) have d: "\<not> is_space d" by (simp add: digit_not_space)
  have len: "length s = e2 + 4" using assms(1,3) by (simp add: e1_def e2_def)
  have d1: "drop ?i s = '','' @ ws @ ds" using assms(1) by simp
  have d2: "drop e1 s = ws @ ds" using assms(1) by (simp add: e1_def)
  have d3: "drop e2 s = ds" using assms(1) by (simp add: e1_def e2_def)
  have m4: "match_at [Eol] s (e2 + 4) = Some [e2 + 4]"
    using len by simp
  have r3: "takeWhile (in_cls Digit) (drop e2 s) = ds"
    unfolding d3 using assms(4) by simp
  have n3: "4 = (case Some 4 of None \<Rightarrow> length (takeWhile (in_cls Digit) (drop e2 s))
                 | Some h \<Rightarrow> min h (length (takeWhile (in_cls Digit) (drop e2 s))))"
    unfolding r3 using assms(3) by simp
  have m3: "match_at [Rep Digit 4 (Some 4), Eol] s e2 = Some [e2 + 4, e2 + 4]"
    using n3 le_refl m4 by (rule match_at_Rep_greedy)
  have r2: "takeWhile (in_cls Space) (drop e1 s) = ws"
    unfolding d2 using assms(2) ds d by simp
  have n2: "length ws = (case None of None \<Rightarrow> length (takeWhile (in_cls Space) (drop e1 s))
                 | Some h \<Rightarrow> min h (length (takeWhile (in_cls Space) (drop e1 s))))"
    unfolding r2 by simp
  have m2: "match_at [Rep Space 0 None, Rep Digit 4 (Some 4), Eol] s e1
              = Some [e1 + length ws, e2 + 4, e2 + 4]"
    using n2 le0 m3[unfolded e2_def] unfolding e2_def by (rule match_at_Rep_greedy)
  have r1: "1 \<le> length (takeWhile (in_cls Comma) (drop ?i s))"
    unfolding d1 by simp
  have n1: "1 = (case Some 1 of None \<Rightarrow> length (takeWhile (in_cls Comma) (drop ?i s))
                 | Some h \<Rightarrow> min h (length (takeWhile (in_cls Comma) (drop ?i s))))"
    using r1 by (simp only: option.case min_absorb1)
  have m1: "match_at year_at_end_rx s ?i = Some [?i + 1, e1 + length ws, e2 + 4, e2 + 4]"
    unfolding year_at_end_rx_def
    using n1 le_refl m2[unfolded e1_def] unfolding e1_def by (rule match_at_Rep_greedy)
  have "?i \<le> length s" using assms(1) by simp
  moreover from m1 have "match_at year_at_end_rx s ?i \<noteq> None" by simp
  ultimately have "re_search year_at_end_rx s \<noteq> None" by (rule re_search_complete)
  then obtain y where y: "year_at_end s = Some y"
    by (auto simp: year_at_end_def split: option.splits)
  have "last s = last ds" using assms(1) ds by simp
  also have "\<dots> \<in> set ds" using ds by simp
  finally have "is_digit (last s)" using assms(4) by simp
  then have "last s \<noteq> CHR 0x0A" by (auto simp: is_digit_def)
  then have "s = [] \<or> last s \<noteq> CHR 0x0A" by simp
  from year_at_end_shape[OF y this] obtain pre' ws' ds2 where
    s': "s = pre' @ '','' @ ws' @ ds2" and l: "length ds2 = 4" and v: "y = int_of_digits ds2"
    by blast
  from assms(1,3) have "drop (length s - 4) s = ds" by simp
  moreover from s' l have "drop (length s - 4) s = ds2" by simp
  ultimately show ?thesis using y v by simp
qed

text \<open>The regular expression \<^verbatim>\<open>,\s*(\d{4})$\<close> on a stripped text, in words.\<close>

lemma year_at_end_stripped:
  "year_at_end (strip x) = Some y \<longleftrightarrow>
     (\<exists>pre ws ds. strip x = pre @ '','' @ ws @ ds \<and> (\<forall>c \<in> set ws. is_space c)
        \<and> length ds = 4 \<and> (\<forall>c \<in> set ds. is_digit c) \<and> y = int_of_digits ds)"
proof
  assume "year_at_end (strip x) = Some y"
  from year_at_end_shape[OF this strip_no_final_newline]
  show "\<exists>pre ws ds. strip x = pre @ '','' @ ws @ ds \<and> (\<forall>c \<in> set ws. is_space c)
        \<and> length ds = 4 \<and> (\<forall>c \<in> set ds. is_digit c) \<and> y = int_of_digits ds" .
next
  assume "\<exists>pre ws ds. strip x = pre @ '','' @ ws @ ds \<and> (\<forall>c \<in> set ws. is_space c)
        \<and> length ds = 4 \<and> (\<forall>c \<in> set ds. is_digit c) \<and> y = int_of_digits ds"
  then obtain pre ws ds where "strip x = pre @ '','' @ ws @ ds" "\<forall>c \<in> set ws. is_space c"
    "length ds = 4" "\<forall>c \<in> set ds. is_digit c" and y: "y = int_of_digits ds"
    by blast
  from year_at_end_complete[OF this(1-4)] y show "year_at_end (strip x) = Some y" by simp
qed

lemma show_int_nonempty: "show_int n \<noteq> []"
proof -
  have "show_digits m \<noteq> []" for m
    by (subst show_digits.simps) simp
  then show ?thesis by (simp add: show_int_def)
qed

lemma show_int_not_space: "c \<in> set (show_int n) \<Longrightarrow> \<not> is_space c"
proof
  assume c: "c \<in> set (show_int n)" and s: "is_space c"
  from s have "c \<notin> insert CHR ''-'' (set ''0123456789'')"
    by (auto simp: is_space_def)
  from show_int_chars[OF this] c show False by simp
qed

lemma format_week_ends:
  "format_week week_start week_end \<noteq> []
   \<and> \<not> is_space (hd (format_week week_start week_end))
   \<and> \<not> is_space (last (format_week week_start week_end))"
proof -
  have h: "\<not> is_space (hd (show_int n))" for n
    using show_int_not_space[of "hd (show_int n)" n] show_int_nonempty[of n] by simp
  have l: "\<not> is_space (last (show_int n))" for n
    using show_int_not_space[of "last (show_int n)" n] show_int_nonempty[of n] by simp
  have z: "\<not> is_space CHR ''0''" by (simp add: is_space_def)
  show ?thesis
    using h l z show_int_nonempty
    by (simp add: format_week_def strf_d_def strf_Y_def hd_append)
qed

lemma generated_weekrange_cases:
  "generate_weekrange_from_date c = []
   \<or> (\<exists>ws we. generate_weekrange_from_date c = format_week (ord2ymd ws) we)"
  by (auto simp: generate_weekrange_from_date_def Let_def split: option.splits if_splits)

lemma generated_weekrange_skipped:
  assumes "WeekRange r = Str (generate_weekrange_from_date c)"
  shows "fix_december_row to_datetime r = r"
proof -
  from generated_weekrange_cases[of c]
  show ?thesis
  proof
    assume "generate_weekrange_from_date c = []"
    with assms have "strip (cell_str (WeekRange r)) = []"
      by (simp add: cell_str_def strip_empty)
    then show ?thesis by (rule fix_december_row_empty_weekrange)
  next
    assume "\<exists>ws we. generate_weekrange_from_date c = format_week (ord2ymd ws) we"
    then obtain ws we where g: "generate_weekrange_from_date c = format_week (ord2ymd ws) we"
      by blast
    from format_week_ends[of "ord2ymd ws" we]
    have "strip (format_week (ord2ymd ws) we) = format_week (ord2ymd ws) we"
      unfolding strip_def by (intro strip_with_id) simp_all
    moreover from format_week_shape[of "ord2ymd ws" we] ord2ymd_month[of ws]
    obtain x y where "format_week (ord2ymd ws) we = x @ '' - '' @ y" "CHR '','' \<notin> set x"
      by auto
    ultimately have "strip (cell_str (WeekRange r)) = x @ '' - '' @ y" and "CHR '','' \<notin> set x"
      using assms g by (simp_all add: cell_str_def)
    then show ?thesis by (rule fix_december_row_skips)
  qed
qed


text \<open>
  C3, as the claim states it: the two parts of the WeekRange \<^verbatim>\<open>27 Dec 2020 - 2 Jan 2021\<close>
  end in the years 2020 and 2021, and the Date is a day of December 2021, the end year.
  The corrector leaves the row as it is, because it looks for the years with
  \<^verbatim>\<open>,\s*(\d{4})$\<close> and finds none without a comma.
\<close>

theorem year_without_comma_not_corrected:
  "to_datetime_d_B_Y ''31 December 2021'' = Some \<lparr>year = 2021, month = 12, day = 31\<rparr>
   \<and> str_split '' - '' ''27 Dec 2020 - 2 Jan 2021'' = [''27 Dec 2020'', ''2 Jan 2021'']
   \<and> fix_december_row to_datetime_d_B_Y
        (example_row (Str ''31 December 2021'') (Str ''27 Dec 2020 - 2 Jan 2021''))
     = example_row (Str ''31 December 2021'') (Str ''27 Dec 2020 - 2 Jan 2021'')"
  by code_simp


text \<open>
  C3, amended. A part of the WeekRange carries a year when, stripped, it ends in a comma,
  any blanks and exactly four digits. If the WeekRange splits at \<^verbatim>\<open>' - '\<close> into two such
  parts, the year of the second is greater than that of the first, and the Date is read as
  a day of December of the year of the second part, then the Date becomes that day, written
  with two digits, \<^verbatim>\<open>December\<close> and the year of the first part, provided a timestamp can
  carry this year (1677 to 2261). A row for which these conditions, the last one apart, do
  not all hold is left as it is.
\<close>

theorem boundary_year_correction:
  "(\<forall>a b pre1 ws1 ds1 pre2 ws2 ds2 d.
        str_split '' - '' (strip (cell_str (WeekRange r))) = [a, b]
      \<and> strip a = pre1 @ '','' @ ws1 @ ds1 \<and> (\<forall>c \<in> set ws1. is_space c)
      \<and> length ds1 = 4 \<and> (\<forall>c \<in> set ds1. is_digit c)
      \<and> strip b = pre2 @ '','' @ ws2 @ ds2 \<and> (\<forall>c \<in> set ws2. is_space c)
      \<and> length ds2 = 4 \<and> (\<forall>c \<in> set ds2. is_digit c)
      \<and> int_of_digits ds1 < int_of_digits ds2
      \<and> to_datetime (strip (cell_str (Date r))) = Some d
      \<and> month d = 12 \<and> year d = int_of_digits ds2
      \<and> replace_year_ok (int_of_digits ds1)
      \<longrightarrow> fix_december_row to_datetime r
            = r\<lparr>Date := Str (strf_d (day d) @ '' December '' @ show_int (int_of_digits ds1))\<rparr>)
   \<and> (\<not> (\<exists>a b pre1 ws1 ds1 pre2 ws2 ds2 d.
            str_split '' - '' (strip (cell_str (WeekRange r))) = [a, b]
          \<and> strip a = pre1 @ '','' @ ws1 @ ds1 \<and> (\<forall>c \<in> set ws1. is_space c)
          \<and> length ds1 = 4 \<and> (\<forall>c \<in> set ds1. is_digit c)
          \<and> strip b = pre2 @ '','' @ ws2 @ ds2 \<and> (\<forall>c \<in> set ws2. is_space c)
          \<and> length ds2 = 4 \<and> (\<forall>c \<in> set ds2. is_digit c)
          \<and> int_of_digits ds1 < int_of_digits ds2
          \<and> to_datetime (strip (cell_str (Date r))) = Some d
          \<and> month d = 12 \<and> year d = int_of_digits ds2)
      \<longrightarrow> fix_december_row to_datetime r = r)"
proof (intro conjI allI impI)
  fix a b pre1 ws1 ds1 pre2 ws2 ds2 d
  assume h: "str_split '' - '' (strip (cell_str (WeekRange r))) = [a, b]
      \<and> strip a = pre1 @ '','' @ ws1 @ ds1 \<and> (\<forall>c \<in> set ws1. is_space c)
      \<and> length ds1 = 4 \<and> (\<forall>c \<in> set ds1. is_digit c)
      \<and> strip b = pre2 @ '','' @ ws2 @ ds2 \<and> (\<forall>c \<in> set ws2. is_space c)
      \<and> length ds2 = 4 \<and> (\<forall>c \<in> set ds2. is_digit c)
      \<and> int_of_digits ds1 < int_of_digits ds2
      \<and> to_datetime (strip (cell_str (Date r))) = Some d
      \<and> month d = 12 \<and> year d = int_of_digits ds2
      \<and> replace_year_ok (int_of_digits ds1)"
  then have a: "strip a = pre1 @ '','' @ ws1 @ ds1" "\<forall>c \<in> set ws1. is_space c"
      "length ds1 = 4" "\<forall>c \<in> set ds1. is_digit c"
    and b: "strip b = pre2 @ '','' @ ws2 @ ds2" "\<forall>c \<in> set ws2. is_space c"
      "length ds2 = 4" "\<forall>c \<in> set ds2. is_digit c"
    by blast+
  from a have ya: "year_at_end (strip a) = Some (int_of_digits ds1)"
    by (rule year_at_end_complete)
  from b have yb: "year_at_end (strip b) = Some (int_of_digits ds2)"
    by (rule year_at_end_complete)
  from h have "str_split '' - '' (strip (cell_str (WeekRange r))) = [a, b]"
    "int_of_digits ds1 < int_of_digits ds2"
    "to_datetime (strip (cell_str (Date r))) = Some d"
    "month d = 12" "year d = int_of_digits ds2" "replace_year_ok (int_of_digits ds1)"
    by blast+
  then show "fix_december_row to_datetime r
            = r\<lparr>Date := Str (strf_d (day d) @ '' December '' @ show_int (int_of_digits ds1))\<rparr>"
    using ya yb
    by (intro fix_december_row_applies[of r a b "int_of_digits ds1" "int_of_digits ds2" to_datetime d])
next
  assume n: "\<not> (\<exists>a b pre1 ws1 ds1 pre2 ws2 ds2 d.
            str_split '' - '' (strip (cell_str (WeekRange r))) = [a, b]
          \<and> strip a = pre1 @ '','' @ ws1 @ ds1 \<and> (\<forall>c \<in> set ws1. is_space c)
          \<and> length ds1 = 4 \<and> (\<forall>c \<in> set ds1. is_digit c)
          \<and> strip b = pre2 @ '','' @ ws2 @ ds2 \<and> (\<forall>c \<in> set ws2. is_space c)
          \<and> length ds2 = 4 \<and> (\<forall>c \<in> set ds2. is_digit c)
          \<and> int_of_digits ds1 < int_of_digits ds2
          \<and> to_datetime (strip (cell_str (Date r))) = Some d
          \<and> month d = 12 \<and> year d = int_of_digits ds2)"
  show "fix_december_row to_datetime r = r"
  proof (rule ccontr)
    assume "fix_december_row to_datetime r \<noteq> r"
    from fix_december_row_changed[OF this] obtain a b sy ey d where
      ab: "str_split '' - '' (strip (cell_str (WeekRange r))) = [a, b]"
      and ya: "year_at_end (strip a) = Some sy" and yb: "year_at_end (strip b) = Some ey"
      and r: "sy < ey" "to_datetime (strip (cell_str (Date r))) = Some d" "month d = 12" "year d = ey"
      by blast
    from year_at_end_shape[OF ya strip_no_final_newline] obtain pre1 ws1 ds1 where
      1: "strip a = pre1 @ '','' @ ws1 @ ds1" "\<forall>c \<in> set ws1. is_space c"
         "length ds1 = 4" "\<forall>c \<in> set ds1. is_digit c" "sy = int_of_digits ds1"
      by blast
    from year_at_end_shape[OF yb strip_no_final_newline] obtain pre2 ws2 ds2 where
      2: "strip b = pre2 @ '','' @ ws2 @ ds2" "\<forall>c \<in> set ws2. is_space c"
         "length ds2 = 4" "\<forall>c \<in> set ds2. is_digit c" "ey = int_of_digits ds2"
      by blast
    have "str_split '' - '' (strip (cell_str (WeekRange r))) = [a, b]
          \<and> strip a = pre1 @ '','' @ ws1 @ ds1 \<and> (\<forall>c \<in> set ws1. is_space c)
          \<and> length ds1 = 4 \<and> (\<forall>c \<in> set ds1. is_digit c)
          \<and> strip b = pre2 @ '','' @ ws2 @ ds2 \<and> (\<forall>c \<in> set ws2. is_space c)
          \<and> length ds2 = 4 \<and> (\<forall>c \<in> set ds2. is_digit c)
          \<and> int_of_digits ds1 < int_of_digits ds2
          \<and> to_datetime (strip (cell_str (Date r))) = Some d
          \<and> month d = 12 \<and> year d = int_of_digits ds2"
      using ab 1 2 r by simp
    with n show False by blast
  qed
qed

theorem boundary_year_correction_witness:
  "fix_december_row to_datetime_d_B_Y
     (example_row (Str ''31 December 2021'') (Str ''27 Dec, 2020 - 2 Jan, 2021''))
   = example_row (Str ''31 December 2020'') (Str ''27 Dec, 2020 - 2 Jan, 2021'')
   \<and> fix_december_row to_datetime_d_B_Y
       (example_row (Str ''5 December 2021'') (Str ''29 Nov,2020 - 5 Dec,  2021''))
     = example_row (Str ''05 December 2020'') (Str ''29 Nov,2020 - 5 Dec,  2021'')
   \<and> fix_december_row to_datetime_d_B_Y
       (example_row (Str ''31 December 2021'') (Str ''27 - 31 Dec, 2021''))
     = example_row (Str ''31 December 2021'') (Str ''27 - 31 Dec, 2021'')"
proof -
  let ?r = "example_row (Str ''31 December 2021'') (Str ''27 Dec, 2020 - 2 Jan, 2021'')"
  let ?d = "\<lparr>year = 2021, month = 12, day = 31\<rparr>"
  have "str_split '' - '' (strip (cell_str (WeekRange ?r))) = [''27 Dec, 2020'', ''2 Jan, 2021'']
      \<and> strip ''27 Dec, 2020'' = ''27 Dec'' @ '','' @ '' '' @ ''2020'' \<and> (\<forall>c \<in> set '' ''. is_space c)
      \<and> length ''2020'' = 4 \<and> (\<forall>c \<in> set ''2020''. is_digit c)
      \<and> strip ''2 Jan, 2021'' = ''2 Jan'' @ '','' @ '' '' @ ''2021'' \<and> (\<forall>c \<in> set '' ''. is_space c)
      \<and> length ''2021'' = 4 \<and> (\<forall>c \<in> set ''2021''. is_digit c)
      \<and> int_of_digits ''2020'' < int_of_digits ''2021''
      \<and> to_datetime_d_B_Y (strip (cell_str (Date ?r))) = Some ?d
      \<and> month ?d = 12 \<and> year ?d = int_of_digits ''2021''
      \<and> replace_year_ok (int_of_digits ''2020'')"
    by code_simp
  with boundary_year_correction[of ?r to_datetime_d_B_Y]
  have "fix_december_row to_datetime_d_B_Y ?r
          = ?r\<lparr>Date := Str (strf_d (day ?d) @ '' December '' @ show_int (int_of_digits ''2020''))\<rparr>"
    by blast
  moreover have "?r\<lparr>Date := Str (strf_d (day ?d) @ '' December '' @ show_int (int_of_digits ''2020''))\<rparr>
          = example_row (Str ''31 December 2020'') (Str ''27 Dec, 2020 - 2 Jan, 2021'')"
    by code_simp
  ultimately have first: "fix_december_row to_datetime_d_B_Y ?r
          = example_row (Str ''31 December 2020'') (Str ''27 Dec, 2020 - 2 Jan, 2021'')"
    by simp
  let ?q = "example_row (Str ''5 December 2021'') (Str ''29 Nov,2020 - 5 Dec,  2021'')"
  let ?e = "\<lparr>year = 2021, month = 12, day = 5\<rparr>"
  have "str_split '' - '' (strip (cell_str (WeekRange ?q))) = [''29 Nov,2020'', ''5 Dec,  2021'']
      \<and> strip ''29 Nov,2020'' = ''29 Nov'' @ '','' @ [] @ ''2020'' \<and> (\<forall>c \<in> set []. is_space c)
      \<and> length ''2020'' = 4 \<and> (\<forall>c \<in> set ''2020''. is_digit c)
      \<and> strip ''5 Dec,  2021'' = ''5 Dec'' @ '','' @ ''  '' @ ''2021'' \<and> (\<forall>c \<in> set ''  ''. is_space c)
      \<and> length ''2021'' = 4 \<and> (\<forall>c \<in> set ''2021''. is_digit c)
      \<and> int_of_digits ''2020'' < int_of_digits ''2021''
      \<and> to_datetime_d_B_Y (strip (cell_str (Date ?q))) = Some ?e
      \<and> month ?e = 12 \<and> year ?e = int_of_digits ''2021''
      \<and> replace_year_ok (int_of_digits ''2020'')"
    by code_simp
  with boundary_year_correction[of ?q to_datetime_d_B_Y]
  have "fix_december_row to_datetime_d_B_Y ?q
          = ?q\<lparr>Date := Str (strf_d (day ?e) @ '' December '' @ show_int (int_of_digits ''2020''))\<rparr>"
    by blast
  moreover have "?q\<lparr>Date := Str (strf_d (day ?e) @ '' December '' @ show_int (int_of_digits ''2020''))\<rparr>
          = example_row (Str ''05 December 2020'') (Str ''29 Nov,2020 - 5 Dec,  2021'')"
    by code_simp
  ultimately have second: "fix_december_row to_datetime_d_B_Y ?q
          = example_row (Str ''05 December 2020'') (Str ''29 Nov,2020 - 5 Dec,  2021'')"
    by simp
  let ?u = "example_row (Str ''31 December 2021'') (Str ''27 - 31 Dec, 2021'')"
  have s: "str_split '' - '' (strip (cell_str (WeekRange ?u))) = [''27'', ''31 Dec, 2021'']"
    by code_simp
  have t: "strip ''27'' = ''27''"
    by code_simp
  have "\<not> (\<exists>a b pre1 ws1 ds1 pre2 ws2 ds2 d.
            str_split '' - '' (strip (cell_str (WeekRange ?u))) = [a, b]
          \<and> strip a = pre1 @ '','' @ ws1 @ ds1 \<and> (\<forall>c \<in> set ws1. is_space c)
          \<and> length ds1 = 4 \<and> (\<forall>c \<in> set ds1. is_digit c)
          \<and> strip b = pre2 @ '','' @ ws2 @ ds2 \<and> (\<forall>c \<in> set ws2. is_space c)
          \<and> length ds2 = 4 \<and> (\<forall>c \<in> set ds2. is_digit c)
          \<and> int_of_digits ds1 < int_of_digits ds2
          \<and> to_datetime_d_B_Y (strip (cell_str (Date ?u))) = Some d
          \<and> month d = 12 \<and> year d = int_of_digits ds2)"
  proof
    assume "\<exists>a b pre1 ws1 ds1 pre2 ws2 ds2 d.
            str_split '' - '' (strip (cell_str (WeekRange ?u))) = [a, b]
          \<and> strip a = pre1 @ '','' @ ws1 @ ds1 \<and> (\<forall>c \<in> set ws1. is_space c)
          \<and> length ds1 = 4 \<and> (\<forall>c \<in> set ds1. is_digit c)
          \<and> strip b = pre2 @ '','' @ ws2 @ ds2 \<and> (\<forall>c \<in> set ws2. is_space c)
          \<and> length ds2 = 4 \<and> (\<forall>c \<in> set ds2. is_digit c)
          \<and> int_of_digits ds1 < int_of_digits ds2
          \<and> to_datetime_d_B_Y (strip (cell_str (Date ?u))) = Some d
          \<and> month d = 12 \<and> year d = int_of_digits ds2"
    then obtain a b pre1 ws1 ds1 where
      "str_split '' - '' (strip (cell_str (WeekRange ?u))) = [a, b]"
      and e: "strip a = pre1 @ '','' @ ws1 @ ds1"
      by blast
    with s have "a = ''27''" by simp
    with e t have "''27'' = pre1 @ '','' @ ws1 @ ds1" by simp
    then have "set ''27'' = set (pre1 @ '','' @ ws1 @ ds1)" by (rule arg_cong)
    then have "CHR '','' \<in> set ''27''" by simp
    then show False by simp
  qed
  with boundary_year_correction[of ?u to_datetime_d_B_Y]
  have third: "fix_december_row to_datetime_d_B_Y ?u = ?u" by blast
  show ?thesis
    by (intro conjI) (rule first, rule second, rule third)
qed

text \<open>
  C10. Unless the WeekRange splits at \<^verbatim>\<open>' - '\<close> into two parts that each, stripped, end in
  a comma, any blanks and exactly four digits, the corrector returns the row as it is.
  The first part of a WeekRange written by \<^verbatim>\<open>generate_weekrange_from_date\<close> is a day
  number, or a day number and a month abbreviation, and holds no comma; so the corrector
  returns as it is every row whose WeekRange this generator has written, whatever its
  Date and whatever week it is.
\<close>

theorem corrector_skips_rows_without_two_years:
  "(\<not> (\<exists>a b pre1 ws1 ds1 pre2 ws2 ds2.
          str_split '' - '' (strip (cell_str (WeekRange r))) = [a, b]
        \<and> strip a = pre1 @ '','' @ ws1 @ ds1 \<and> (\<forall>c \<in> set ws1. is_space c)
        \<and> length ds1 = 4 \<and> (\<forall>c \<in> set ds1. is_digit c)
        \<and> strip b = pre2 @ '','' @ ws2 @ ds2 \<and> (\<forall>c \<in> set ws2. is_space c)
        \<and> length ds2 = 4 \<and> (\<forall>c \<in> set ds2. is_digit c))
      \<longrightarrow> fix_december_row to_datetime r = r)
   \<and> (\<forall>c. WeekRange r = Str (generate_weekrange_from_date c)
          \<longrightarrow> fix_december_row to_datetime r = r)"
proof (intro conjI impI allI)
  assume n: "\<not> (\<exists>a b pre1 ws1 ds1 pre2 ws2 ds2.
          str_split '' - '' (strip (cell_str (WeekRange r))) = [a, b]
        \<and> strip a = pre1 @ '','' @ ws1 @ ds1 \<and> (\<forall>c \<in> set ws1. is_space c)
        \<and> length ds1 = 4 \<and> (\<forall>c \<in> set ds1. is_digit c)
        \<and> strip b = pre2 @ '','' @ ws2 @ ds2 \<and> (\<forall>c \<in> set ws2. is_space c)
        \<and> length ds2 = 4 \<and> (\<forall>c \<in> set ds2. is_digit c))"
  show "fix_december_row to_datetime r = r"
  proof (rule ccontr)
    assume "fix_december_row to_datetime r \<noteq> r"
    from fix_december_row_changed[OF this] obtain a b sy ey where
      ab: "str_split '' - '' (strip (cell_str (WeekRange r))) = [a, b]"
      and ya: "year_at_end (strip a) = Some sy" and yb: "year_at_end (strip b) = Some ey"
      by blast
    from year_at_end_shape[OF ya strip_no_final_newline] obtain pre1 ws1 ds1 where
      1: "strip a = pre1 @ '','' @ ws1 @ ds1" "\<forall>c \<in> set ws1. is_space c"
         "length ds1 = 4" "\<forall>c \<in> set ds1. is_digit c"
      by blast
    from year_at_end_shape[OF yb strip_no_final_newline] obtain pre2 ws2 ds2 where
      2: "strip b = pre2 @ '','' @ ws2 @ ds2" "\<forall>c \<in> set ws2. is_space c"
         "length ds2 = 4" "\<forall>c \<in> set ds2. is_digit c"
      by blast
    from n ab 1 2 show False by blast
  qed
next
  fix c
  assume "WeekRange r = Str (generate_weekrange_from_date c)"
  then show "fix_december_row to_datetime r = r" by (rule generated_weekrange_skipped)
qed

theorem corrector_skips_rows_without_two_years_witness:
  "generate_weekrange_from_date (Str ''31 December 2020'') = ''28 Dec - 03 Jan, 2021''
   \<and> fix_december_row to_datetime_d_B_Y
        (example_row (Str ''31 December 2021'') (Str ''28 Dec - 03 Jan, 2021''))
     = example_row (Str ''31 December 2021'') (Str ''28 Dec - 03 Jan, 2021'')
   \<and> fix_december_row to_datetime_d_B_Y
        (example_row (Str ''31 December 2021'') (Str ''27 Dec 2020 - 2 Jan, 2021''))
     = example_row (Str ''31 December 2021'') (Str ''27 Dec 2020 - 2 Jan, 2021'')"
proof -
  let ?r = "example_row (Str ''31 December 2021'') (Str ''28 Dec - 03 Jan, 2021'')"
  let ?q = "example_row (Str ''31 December 2021'') (Str ''27 Dec 2020 - 2 Jan, 2021'')"
  have g: "generate_weekrange_from_date (Str ''31 December 2020'') = ''28 Dec - 03 Jan, 2021''"
    by code_simp
  then have "WeekRange ?r = Str (generate_weekrange_from_date (Str ''31 December 2020''))"
    by (simp add: example_row_def)
  with corrector_skips_rows_without_two_years[of ?r to_datetime_d_B_Y]
  have r: "fix_december_row to_datetime_d_B_Y ?r = ?r" by blast
  have s: "str_split '' - '' (strip (cell_str (WeekRange ?q))) = [''27 Dec 2020'', ''2 Jan, 2021'']"
    by code_simp
  have t: "strip ''27 Dec 2020'' = ''27 Dec 2020''"
    by code_simp
  have "\<not> (\<exists>a b pre1 ws1 ds1 pre2 ws2 ds2.
          str_split '' - '' (strip (cell_str (WeekRange ?q))) = [a, b]
        \<and> strip a = pre1 @ '','' @ ws1 @ ds1 \<and> (\<forall>c \<in> set ws1. is_space c)
        \<and> length ds1 = 4 \<and> (\<forall>c \<in> set ds1. is_digit c)
        \<and> strip b = pre2 @ '','' @ ws2 @ ds2 \<and> (\<forall>c \<in> set ws2. is_space c)
        \<and> length ds2 = 4 \<and> (\<forall>c \<in> set ds2. is_digit c))"
  proof
    assume "\<exists>a b pre1 ws1 ds1 pre2 ws2 ds2.
          str_split '' - '' (strip (cell_str (WeekRange ?q))) = [a, b]
        \<and> strip a = pre1 @ '','' @ ws1 @ ds1 \<and> (\<forall>c \<in> set ws1. is_space c)
        \<and> length ds1 = 4 \<and> (\<forall>c \<in> set ds1. is_digit c)
        \<and> strip b = pre2 @ '','' @ ws2 @ ds2 \<and> (\<forall>c \<in> set ws2. is_space c)
        \<and> length ds2 = 4 \<and> (\<forall>c \<in> set ds2. is_digit c)"
    then obtain a b pre1 ws1 ds1 where
      "str_split '' - '' (strip (cell_str (WeekRange ?q))) = [a, b]"
      and e: "strip a = pre1 @ '','' @ ws1 @ ds1"
      by blast
    with s have "a = ''27 Dec 2020''" by simp
    with e t have "''27 Dec 2020'' = pre1 @ '','' @ ws1 @ ds1" by simp
    then have "set ''27 Dec 2020'' = set (pre1 @ '','' @ ws1 @ ds1)" by (rule arg_cong)
    then have "CHR '','' \<in> set ''27 Dec 2020''" by simp
    then show False by simp
  qed
  with corrector_skips_rows_without_two_years[of ?q to_datetime_d_B_Y]
  have q: "fix_december_row to_datetime_d_B_Y ?q = ?q" by blast
  show ?thesis
    by (intro conjI) (rule g, rule r, rule q)
qed

end
